theory Spec2Isabelle
  imports Main "HOL-Library.Sublist"
begin

section \<open>Python strings\<close>

text \<open>
  A Python \<open>str\<close> is a sequence of Unicode code points; \<open>len\<close>, slicing and
  the regular expressions of the program count code points. A string is therefore a
  list of code points (natural numbers). \<open>asc\<close> turns an ASCII literal into such a
  list.
\<close>

type_synonym pystr = "nat list"

definition asc :: "string \<Rightarrow> pystr" where
  "asc s = map of_char s"

text \<open>
  The parts of Python's Unicode database the program reaches through \<open>str.lower\<close>,
  \<open>\d\<close> and \<open>int\<close>. On ASCII text they are known and written out below; for text
  with other code points the tables are not part of the repository and are taken as
  parameters: \<open>lower_nonascii\<close> is \<open>str.lower\<close> on a string that has a non-ASCII
  code point, \<open>decimal_nonascii\<close> gives the digit value of a non-ASCII code point of
  category Nd.
\<close>

record unicode_db =
  lower_nonascii :: "pystr \<Rightarrow> pystr"
  decimal_nonascii :: "nat \<Rightarrow> nat option"

text \<open>
  The database used to run the program on concrete inputs: no non-ASCII code point is a
  decimal digit and lower-casing leaves a string with a non-ASCII code point unchanged.
  The concrete inputs below are ASCII text, except for a few that contain the euro sign,
  the pound sign or the non-ASCII code points of the currency pattern; none of these is
  a digit, and no such input is lower-cased.
\<close>

definition plain_db :: unicode_db where
  "plain_db = \<lparr>lower_nonascii = (\<lambda>s. s), decimal_nonascii = (\<lambda>c. None)\<rparr>"

definition ascii_lower :: "nat \<Rightarrow> nat" where
  "ascii_lower c = (if 65 \<le> c \<and> c \<le> 90 then c + 32 else c)"

definition py_lower :: "unicode_db \<Rightarrow> pystr \<Rightarrow> pystr" where
  "py_lower U s = (if list_all (\<lambda>c. c < 128) s then map ascii_lower s else lower_nonascii U s)"

definition py_decimal :: "unicode_db \<Rightarrow> nat \<Rightarrow> nat option" where
  "py_decimal U c =
     (if c < 128 then (if 48 \<le> c \<and> c \<le> 57 then Some (c - 48) else None)
      else decimal_nonascii U c)"

text \<open>\<open>\d\<close> of a \<open>str\<close> pattern: a code point of category Nd.\<close>

definition isdecimal :: "unicode_db \<Rightarrow> nat \<Rightarrow> bool" where
  "isdecimal U c = (py_decimal U c \<noteq> None)"

text \<open>
  \<open>str.isspace\<close> of one code point; \<open>str.split()\<close>, \<open>str.strip()\<close> and \<open>\s\<close> of
  a \<open>str\<close> pattern all use this set.
\<close>

definition isspace :: "nat \<Rightarrow> bool" where
  "isspace c =
     ((9 \<le> c \<and> c \<le> 13) \<or> (28 \<le> c \<and> c \<le> 32) \<or> c = 133 \<or> c = 160 \<or> c = 5760 \<or>
      (8192 \<le> c \<and> c \<le> 8202) \<or> c = 8232 \<or> c = 8233 \<or> c = 8239 \<or> c = 8287 \<or> c = 12288)"

text \<open>\<open>s.split()\<close>: the maximal runs of non-whitespace; \<open>cur\<close> is the run being read.\<close>

fun split_ws :: "pystr \<Rightarrow> pystr \<Rightarrow> pystr list" where
  "split_ws cur [] = (if cur = [] then [] else [cur])"
| "split_ws cur (c # s) =
     (if isspace c then (if cur = [] then split_ws [] s else cur # split_ws [] s)
      else split_ws (cur @ [c]) s)"

definition py_split :: "pystr \<Rightarrow> pystr list" where
  "py_split s = split_ws [] s"

text \<open>\<open>sep.join(xs)\<close>.\<close>

fun py_join :: "pystr \<Rightarrow> pystr list \<Rightarrow> pystr" where
  "py_join sep [] = []"
| "py_join sep [x] = x"
| "py_join sep (x # y # ys) = x @ sep @ py_join sep (y # ys)"

text \<open>\<open>" ".join(s.split())\<close>, which the program writes out at each use.\<close>

definition collapse :: "pystr \<Rightarrow> pystr" where
  "collapse s = py_join [32] (py_split s)"

text \<open>\<open>s.strip()\<close> and \<open>s.strip(chars)\<close>.\<close>

definition py_strip :: "pystr \<Rightarrow> pystr" where
  "py_strip s = rev (dropWhile isspace (rev (dropWhile isspace s)))"

definition py_strip_chars :: "pystr \<Rightarrow> pystr \<Rightarrow> pystr" where
  "py_strip_chars cs s =
     rev (dropWhile (\<lambda>c. c \<in> set cs) (rev (dropWhile (\<lambda>c. c \<in> set cs) s)))"

text \<open>\<open>sub in s\<close>.\<close>

fun py_in :: "pystr \<Rightarrow> pystr \<Rightarrow> bool" where
  "py_in sub [] = (sub = [])"
| "py_in sub (c # s) = (prefix sub (c # s) \<or> py_in sub s)"

text \<open>
  \<open>s.find(sub)\<close> and \<open>s.find(sub, start)\<close> with \<open>0 \<le> start\<close>; \<open>None\<close> is
  Python's \<open>-1\<close>.
\<close>

fun find_from :: "pystr \<Rightarrow> pystr \<Rightarrow> nat \<Rightarrow> nat option" where
  "find_from sub [] i = (if sub = [] then Some i else None)"
| "find_from sub (c # s) i = (if prefix sub (c # s) then Some i else find_from sub s (Suc i))"

definition py_find :: "pystr \<Rightarrow> pystr \<Rightarrow> nat option" where
  "py_find sub s = find_from sub s 0"

definition py_find_start :: "pystr \<Rightarrow> pystr \<Rightarrow> nat \<Rightarrow> nat option" where
  "py_find_start sub s start =
     (if length s < start then None else find_from sub (drop start s) start)"

text \<open>\<open>s.rfind(sub)\<close>: the last index where \<open>sub\<close> starts, \<open>seen\<close> the one found so far.\<close>

fun rfind_from :: "pystr \<Rightarrow> pystr \<Rightarrow> nat \<Rightarrow> nat option \<Rightarrow> nat option" where
  "rfind_from sub [] i seen = (if sub = [] then Some i else seen)"
| "rfind_from sub (c # s) i seen =
     rfind_from sub s (Suc i) (if prefix sub (c # s) then Some i else seen)"

definition py_rfind :: "pystr \<Rightarrow> pystr \<Rightarrow> nat option" where
  "py_rfind sub s = rfind_from sub s 0 None"

text \<open>
  \<open>s.replace(old, new)\<close> for a non-empty \<open>old\<close> (the program only passes the
  constants \<open>"US$"\<close> and \<open>"$"\<close>): the occurrences are replaced from left to right,
  without overlap.
\<close>

fun py_replace :: "pystr \<Rightarrow> pystr \<Rightarrow> pystr \<Rightarrow> pystr" where
  "py_replace old new [] = []"
| "py_replace old new (c # s) =
     (if old \<noteq> [] \<and> prefix old (c # s)
      then new @ py_replace old new (drop (length old) (c # s))
      else c # py_replace old new s)"

text \<open>
  \<open>re.split(p, s)\<close> for a pattern \<open>p\<close> of the form \<open>[class]+\<close>: the string is cut
  at every maximal run of code points of the class. \<open>insep\<close> says that the previous
  code point belonged to such a run, \<open>cur\<close> is the piece being read.
\<close>

fun split_runs :: "(nat \<Rightarrow> bool) \<Rightarrow> bool \<Rightarrow> pystr \<Rightarrow> pystr \<Rightarrow> pystr list" where
  "split_runs P insep cur [] = [cur]"
| "split_runs P insep cur (c # s) =
     (if P c then (if insep then split_runs P True cur s else cur # split_runs P True [] s)
      else split_runs P False (cur @ [c]) s)"

definition re_split_class :: "(nat \<Rightarrow> bool) \<Rightarrow> pystr \<Rightarrow> pystr list" where
  "re_split_class P s = split_runs P False [] s"

text \<open>\<open>re.sub(r"\s+", " ", s)\<close>: every maximal run of whitespace becomes one space.\<close>

fun sub_ws :: "bool \<Rightarrow> pystr \<Rightarrow> pystr" where
  "sub_ws insep [] = []"
| "sub_ws insep (c # s) =
     (if isspace c then (if insep then sub_ws True s else 32 # sub_ws True s)
      else c # sub_ws False s)"

definition re_sub_ws :: "pystr \<Rightarrow> pystr" where
  "re_sub_ws s = sub_ws False s"

text \<open>Whether a string starts with a given code point.\<close>

definition starts_with :: "nat \<Rightarrow> pystr \<Rightarrow> bool" where
  "starts_with c s = (case s of [] \<Rightarrow> False | x # _ \<Rightarrow> x = c)"

datatype py_error = AttributeError | ValueError

text \<open>
  \<open>str(n)\<close> of a natural number, and \<open>int(s)\<close>, which raises \<open>ValueError\<close> unless
  the string is a non-empty sequence of decimal digits (signs, blanks and underscores,
  which \<open>int\<close> also accepts, never reach it in this program).
\<close>

fun py_str_nat :: "nat \<Rightarrow> pystr" where
  "py_str_nat n = (if n < 10 then [48 + n] else py_str_nat (n div 10) @ [48 + n mod 10])"

fun int_digits :: "unicode_db \<Rightarrow> nat \<Rightarrow> pystr \<Rightarrow> py_error + nat" where
  "int_digits U acc [] = Inr acc"
| "int_digits U acc (c # s) =
     (case py_decimal U c of
        Some d \<Rightarrow> int_digits U (10 * acc + d) s
      | None \<Rightarrow> Inl ValueError)"

definition py_int :: "unicode_db \<Rightarrow> pystr \<Rightarrow> py_error + nat" where
  "py_int U s = (if s = [] then Inl ValueError else int_digits U 0 s)"

section \<open>Articles\<close>

text \<open>
  An article is a dictionary read from JSON; the program reads it with
  \<open>article.get(key, default)\<close>. A field is \<open>None\<close> when the key is absent or
  null.
\<close>

record article =
  title :: "pystr option"
  content :: "pystr option"
  url :: "pystr option"
  timestamp :: "pystr list option"

text \<open>\<open>article.get("content", "") or ""\<close>, and the same for the title.\<close>

definition get_or_empty :: "pystr option \<Rightarrow> pystr" where
  "get_or_empty v = (case v of None \<Rightarrow> [] | Some s \<Rightarrow> s)"

section \<open>Date handling\<close>

definition MONTH_MAP :: "(pystr \<times> pystr) list" where
  "MONTH_MAP =
    [(asc ''Jan.'', asc ''Jan''), (asc ''January'', asc ''Jan''),
     (asc ''Feb.'', asc ''Feb''), (asc ''February'', asc ''Feb''),
     (asc ''Mar.'', asc ''Mar''), (asc ''March'', asc ''Mar''),
     (asc ''Apr.'', asc ''Apr''), (asc ''April'', asc ''Apr''),
     (asc ''May'', asc ''May''),
     (asc ''Jun.'', asc ''Jun''), (asc ''June'', asc ''Jun''),
     (asc ''Jul.'', asc ''Jul''), (asc ''July'', asc ''Jul''),
     (asc ''Aug.'', asc ''Aug''), (asc ''August'', asc ''Aug''),
     (asc ''Sep.'', asc ''Sep''), (asc ''Sept.'', asc ''Sep''), (asc ''September'', asc ''Sep''),
     (asc ''Oct.'', asc ''Oct''), (asc ''October'', asc ''Oct''),
     (asc ''Nov.'', asc ''Nov''), (asc ''November'', asc ''Nov''),
     (asc ''Dec.'', asc ''Dec''), (asc ''December'', asc ''Dec'')]"

definition normalize_month :: "pystr \<Rightarrow> pystr" where
  "normalize_month month_str =
     (case map_of MONTH_MAP month_str of Some m \<Rightarrow> m | None \<Rightarrow> month_str)"

text \<open>
  The pattern \<open>([A-Z][a-z]{2,9}\.?)[ ]+(\d{1,2}),[ ]*(\d{4})\<close> matched at the start of
  a string; the result is the three groups. Every quantifier of the pattern is followed
  by something that none of the code points it ranges over can match (a lower-case
  letter is neither \<open>.\<close> nor a space, a space is not a digit, a digit is not a
  comma), so giving back what a greedy quantifier took never helps and the longest
  choice at each quantifier is the only one that can succeed.
\<close>

definition is_AZ :: "nat \<Rightarrow> bool" where
  "is_AZ c = (65 \<le> c \<and> c \<le> 90)"

definition is_az :: "nat \<Rightarrow> bool" where
  "is_az c = (97 \<le> c \<and> c \<le> 122)"

definition date_at :: "unicode_db \<Rightarrow> pystr \<Rightarrow> (pystr \<times> pystr \<times> pystr) option" where
  "date_at U s =
     (case s of [] \<Rightarrow> None
      | c0 # s1 \<Rightarrow>
          if \<not> is_AZ c0 then None
          else
            let letters = take 9 (takeWhile is_az s1);
                s2 = drop (length letters) s1;
                dot = (if starts_with 46 s2 then [46] else []);
                s3 = drop (length dot) s2;
                s4 = dropWhile (\<lambda>c. c = 32) s3;
                day = take 2 (takeWhile (isdecimal U) s4);
                s5 = drop (length day) s4;
                s6 = dropWhile (\<lambda>c. c = 32) (tl s5);
                year = take 4 s6
            in
              if 2 \<le> length letters \<and> starts_with 32 s3 \<and> day \<noteq> [] \<and> starts_with 44 s5 \<and>
                 length year = 4 \<and> list_all (isdecimal U) year
              then Some (c0 # letters @ dot, day, year)
              else None)"

text \<open>\<open>re.search\<close> of that pattern: the match at the leftmost position that has one.\<close>

fun search_date :: "unicode_db \<Rightarrow> pystr \<Rightarrow> (pystr \<times> pystr \<times> pystr) option" where
  "search_date U [] = None"
| "search_date U (c # s) =
     (case date_at U (c # s) of Some g \<Rightarrow> Some g | None \<Rightarrow> search_date U s)"

text \<open>The f-string \<open>f"{normalize_month(month_raw)} {int(day)}, {year}"\<close>.\<close>

definition format_date :: "unicode_db \<Rightarrow> pystr \<times> pystr \<times> pystr \<Rightarrow> py_error + pystr" where
  "format_date U g =
     (case g of (month_raw, day, year) \<Rightarrow>
        (case py_int U day of
           Inl e \<Rightarrow> Inl e
         | Inr d \<Rightarrow> Inr (normalize_month month_raw @ [32] @ py_str_nat d @ [44, 32] @ year)))"

definition extract_date_from_timestamp_list :: "unicode_db \<Rightarrow> pystr list \<Rightarrow> py_error + pystr" where
  "extract_date_from_timestamp_list U timestamp_list =
     (case timestamp_list of [] \<Rightarrow> Inr []
      | ts # _ \<Rightarrow> (case search_date U ts of Some g \<Rightarrow> format_date U g | None \<Rightarrow> Inr []))"

definition extract_date_from_content :: "unicode_db \<Rightarrow> pystr \<Rightarrow> py_error + pystr" where
  "extract_date_from_content U c =
     (case search_date U (collapse c) of None \<Rightarrow> Inr [] | Some g \<Rightarrow> format_date U g)"

text \<open>
  \<open>article.get("timestamp", [])\<close> is the empty list when the key is absent; a null
  value is falsy as well and takes the same branch of \<open>if not timestamp_list\<close>.
\<close>

definition get_timestamps :: "article \<Rightarrow> pystr list" where
  "get_timestamps a = (case timestamp a of None \<Rightarrow> [] | Some l \<Rightarrow> l)"

definition get_pretty_date :: "unicode_db \<Rightarrow> article \<Rightarrow> py_error + pystr" where
  "get_pretty_date U a =
     (case extract_date_from_timestamp_list U (get_timestamps a) of
        Inl e \<Rightarrow> Inl e
      | Inr ts_date \<Rightarrow>
          if ts_date \<noteq> [] then Inr ts_date
          else extract_date_from_content U (get_or_empty (content a)))"

section \<open>Fallback summary\<close>

definition strip_prnewswire_boilerplate :: "pystr \<Rightarrow> pystr" where
  "strip_prnewswire_boilerplate c =
     (let text = collapse c; marker = asc ''/PRNewswire''
      in case py_find marker text of
           Some idx \<Rightarrow>
             (case py_find_start (asc ''--'') text idx of
                Some dash_idx \<Rightarrow> py_strip (drop (dash_idx + 2) text)
              | None \<Rightarrow> py_strip (drop (idx + length marker) text))
         | None \<Rightarrow> text)"

text \<open>
  \<open>re.split(r"(?<=[.!?])\s+", core)\<close>: a separator is a maximal run of whitespace
  that starts right after \<open>.\<close>, \<open>!\<close> or \<open>?\<close>. \<open>prev\<close> is the code point before
  the position, \<open>insep\<close> says that a separator is being read, \<open>cur\<close> is the piece
  being read.
\<close>

fun split_sentences :: "nat option \<Rightarrow> bool \<Rightarrow> pystr \<Rightarrow> pystr \<Rightarrow> pystr list" where
  "split_sentences prev insep cur [] = [cur]"
| "split_sentences prev insep cur (c # s) =
     (if isspace c \<and> (insep \<or> prev = Some 46 \<or> prev = Some 33 \<or> prev = Some 63)
      then (if insep then split_sentences (Some c) True cur s
            else cur # split_sentences (Some c) True [] s)
      else split_sentences (Some c) False (cur @ [c]) s)"

definition simple_summary :: "pystr \<Rightarrow> nat \<Rightarrow> pystr" where
  "simple_summary c max_chars =
     (let core = strip_prnewswire_boilerplate c
      in if core = [] then []
         else
           let sentences = split_sentences None False [] core;
               summary = py_strip (py_join [32] (take 2 sentences))
           in if length summary > max_chars
              then
                let short = take max_chars summary;
                    short' = (case py_rfind [32] short of
                                Some l \<Rightarrow> if l > 0 then take l short else short
                              | None \<Rightarrow> short)
                in short' @ asc ''...''
              else summary)"

section \<open>The text-generation service\<close>

text \<open>
  The two requests to the service differ in their fixed prompt text; a request is
  represented by the values interpolated into the prompt. The service is a parameter:
  \<open>summary_response\<close> gives the \<open>response\<close> field of the reply to a summary request
  (the empty string when the field is absent or empty) and \<open>None\<close> when the call,
  the decoding of the reply or the \<open>strip\<close> raises;
  \<open>metadata_response\<close> gives the dictionary that \<open>json.loads\<close> returns for the
  \<open>{...}\<close> span of the reply and \<open>None\<close> when anything inside the \<open>try\<close> raises.
  Every function that may call the service returns the requests it has issued next to
  its result.
\<close>

datatype request = SummaryRequest pystr pystr | MetadataRequest pystr

datatype pyval =
    PNone | PBool bool | PInt int
  | PFloat bool \<comment> \<open>a float; the program only tests whether it is non-zero\<close>
  | PStr pystr | PList "pyval list" | PDict "(pystr \<times> pyval) list"

record service =
  summary_response :: "request \<Rightarrow> pystr option"
  metadata_response :: "request \<Rightarrow> (pystr \<rightharpoonup> pyval) option"

definition MAX_CHARS_FOR_AI :: nat where
  "MAX_CHARS_FOR_AI = 2000"

definition ai_summarise_with_ollama :: "service \<Rightarrow> pystr \<Rightarrow> pystr \<Rightarrow> pystr \<times> request list" where
  "ai_summarise_with_ollama svc c date_str =
     (if c = [] then ([], [])
      else
        let content_for_ai = take MAX_CHARS_FOR_AI c;
            req = SummaryRequest date_str content_for_ai
        in (case summary_response svc req of
              Some r \<Rightarrow> (py_strip r, [req])
            | None \<Rightarrow> ([], [req])))"

section \<open>Does the summary match the title?\<close>

text \<open>\<open>tokens\<close>: the list comprehension over \<open>title.split()\<close>.\<close>

definition title_tokens :: "pystr \<Rightarrow> pystr list" where
  "title_tokens t =
     map (py_strip_chars (asc '' ,.&()/-''))
       (filter (\<lambda>t. length (py_strip_chars (asc '' ,.&()/-'') t) \<ge> 4) (py_split t))"

definition summary_matches_title :: "unicode_db \<Rightarrow> pystr \<Rightarrow> pystr \<Rightarrow> bool" where
  "summary_matches_title U summary t =
     (if summary = [] \<or> t = [] then False
      else
        let summary_l = py_lower U summary;
            tokens = title_tokens t
        in if tokens = [] then False
           else list_ex (\<lambda>t. py_in (py_lower U t) summary_l) tokens)"

text \<open>
  The result is the context, or the error raised while computing the date, and the
  requests issued.
\<close>

definition get_context_text ::
  "unicode_db \<Rightarrow> service \<Rightarrow> article \<Rightarrow> (py_error + pystr) \<times> request list" where
  "get_context_text U svc a =
     (let c = get_or_empty (content a) in
      case get_pretty_date U a of
        Inl e \<Rightarrow> (Inl e, [])
      | Inr pretty_date \<Rightarrow>
          let t = get_or_empty (title a);
              (ai_line, reqs) =
                (if c \<noteq> [] then ai_summarise_with_ollama svc c pretty_date else ([], []))
          in if c \<noteq> [] \<and> ai_line \<noteq> [] \<and> summary_matches_title U ai_line t
             then (Inr ai_line, reqs)
             else (Inr (simple_summary c 400), reqs))"

section \<open>Deal value from text\<close>

definition NA :: pystr where
  "NA = asc ''NA''"

text \<open>
  The pattern is compiled with \<open>re.IGNORECASE\<close>. A literal \<open>p\<close> of the pattern then
  matches a code point \<open>t\<close> of the text when the simple lower case of \<open>t\<close> is the lower
  case of \<open>p\<close> or one of its listed equivalents. For the literals of this pattern that
  gives: an ASCII letter matches its two ASCII forms, and \<open>i\<close> also U+0130 and U+0131,
  \<open>s\<close> also U+017F, \<open>k\<close> also U+212A; U+00C7 matches U+00C7 and U+00E7; a literal
  without case (\<open>$\<close>, \<open>.\<close>, U+201A, U+00A8, U+00AC, U+00A3) matches only itself.
\<close>

definition ci_match :: "nat \<Rightarrow> nat \<Rightarrow> bool" where
  "ci_match p t =
     (if is_AZ p \<or> is_az p
      then (ascii_lower t = ascii_lower p \<or>
            (ascii_lower p = 105 \<and> (t = 304 \<or> t = 305)) \<or>
            (ascii_lower p = 115 \<and> t = 383) \<or>
            (ascii_lower p = 107 \<and> t = 8490))
      else if p = 199 \<or> p = 231 then (t = 199 \<or> t = 231)
      else t = p)"

text \<open>A literal string of the pattern at the start of the text: the rest of the text.\<close>

fun ci_prefix :: "pystr \<Rightarrow> pystr \<Rightarrow> pystr option" where
  "ci_prefix [] s = Some s"
| "ci_prefix (p # ps) [] = None"
| "ci_prefix (p # ps) (t # s) = (if ci_match p t then ci_prefix ps s else None)"

text \<open>
  The alternatives of the currency group, in the order of the source:
  \<open>USD|US\$|\$|EUR|...|GBP|...|C\$|CAD|INR|Rs\.?\<close>. The fifth alternative is written
  in the source file as the three code points U+201A U+00C7 U+00A8 and the seventh as
  the two code points U+00AC U+00A3. The optional dot of the last alternative is tried
  with the dot first.
\<close>

definition currency_markers :: "pystr list" where
  "currency_markers =
     [asc ''USD'', asc ''US$'', asc ''$'', asc ''EUR'', [8218, 199, 168], asc ''GBP'',
      [172, 163], asc ''C$'', asc ''CAD'', asc ''INR'', asc ''Rs.'', asc ''Rs'']"

definition magnitudes :: "pystr list" where
  "magnitudes =
     [asc ''million'', asc ''billion'', asc ''bn'', asc ''mn'', asc ''m'', asc ''M'', asc ''B'']"

text \<open>\<open>(?:million|billion|bn|mn|m|M|B)?\<close> at the start of the text: what it matches.\<close>

fun magnitude_at :: "pystr list \<Rightarrow> pystr \<Rightarrow> pystr" where
  "magnitude_at [] s = []"
| "magnitude_at (m # ms) s =
     (case ci_prefix m s of Some _ \<Rightarrow> take (length m) s | None \<Rightarrow> magnitude_at ms s)"

definition is_09 :: "nat \<Rightarrow> bool" where
  "is_09 c = (48 \<le> c \<and> c \<le> 57)"

text \<open>
  \<open>\s*[0-9][0-9,]*(?:\.\d+)?\s*(?:million|...)?\<close> at the start of the text: what it
  matches. Nothing follows this part in the pattern and everything after the first
  digit is optional, so each quantifier keeps its longest match. \<open>digit_run\<close> is
  what \<open>[0-9][0-9,]*\<close> matches, empty when the text does not start with a digit.
\<close>

definition digit_run :: "pystr \<Rightarrow> pystr" where
  "digit_run s =
     (case s of [] \<Rightarrow> []
      | c # r \<Rightarrow> if is_09 c then c # takeWhile (\<lambda>c. is_09 c \<or> c = 44) r else [])"

definition amount_at :: "unicode_db \<Rightarrow> pystr \<Rightarrow> pystr option" where
  "amount_at U s =
     (let ws1 = takeWhile isspace s;
          s1 = drop (length ws1) s;
          num = digit_run s1;
          s2 = drop (length num) s1;
          digits = takeWhile (isdecimal U) (tl s2);
          frac = (if starts_with 46 s2 \<and> digits \<noteq> [] then 46 # digits else []);
          s3 = drop (length frac) s2;
          ws2 = takeWhile isspace s3;
          s4 = drop (length ws2) s3
      in if num = [] then None
         else Some (ws1 @ num @ frac @ ws2 @ magnitude_at magnitudes s4))"

text \<open>
  The whole pattern at the start of the text: the first alternative of the currency
  group after which the amount matches. The result is the text matched by the currency
  group and the text matched by the rest; group 1 is the two together.
\<close>

fun deal_at :: "unicode_db \<Rightarrow> pystr list \<Rightarrow> pystr \<Rightarrow> (pystr \<times> pystr) option" where
  "deal_at U [] s = None"
| "deal_at U (m # ms) s =
     (case ci_prefix m s of
        None \<Rightarrow> deal_at U ms s
      | Some r \<Rightarrow>
          (case amount_at U r of
             None \<Rightarrow> deal_at U ms s
           | Some a \<Rightarrow> Some (take (length m) s, a)))"

text \<open>\<open>re.search\<close>: the match at the leftmost position that has one.\<close>

fun search_deal :: "unicode_db \<Rightarrow> pystr \<Rightarrow> (pystr \<times> pystr) option" where
  "search_deal U [] = None"
| "search_deal U (c # s) =
     (case deal_at U currency_markers (c # s) of
        Some g \<Rightarrow> Some g
      | None \<Rightarrow> search_deal U s)"

definition normalize_value :: "pystr \<Rightarrow> pystr" where
  "normalize_value g =
     (let v = py_strip g;
          v = py_replace (asc ''US$'') (asc ''USD '') v;
          v = py_replace (asc ''$'') (asc ''USD '') v
      in py_strip (re_sub_ws v))"

definition extract_deal_value_from_text :: "unicode_db \<Rightarrow> pystr \<Rightarrow> pystr" where
  "extract_deal_value_from_text U c =
     (if c = [] then NA
      else
        case search_deal U (collapse c) of
          None \<Rightarrow> NA
        | Some (mk, amt) \<Rightarrow> normalize_value (mk @ amt))"

section \<open>Metadata extraction\<close>

record deal =
  deal_value :: pystr
  deal_advisor :: pystr
  investor_or_pe :: pystr
  buyer :: pystr
  seller :: pystr
  buyer_lead_name :: pystr
  buyer_lead_role :: pystr
  investor_lead_name :: pystr
  investor_lead_role :: pystr
  seller_lead_name :: pystr
  seller_lead_role :: pystr

text \<open>Python's truth value of a value decoded from JSON.\<close>

fun truthy :: "pyval \<Rightarrow> bool" where
  "truthy PNone = False"
| "truthy (PBool b) = b"
| "truthy (PInt i) = (i \<noteq> 0)"
| "truthy (PFloat nz) = nz"
| "truthy (PStr s) = (s \<noteq> [])"
| "truthy (PList l) = (l \<noteq> [])"
| "truthy (PDict d) = (d \<noteq> [])"

text \<open>
  \<open>clean\<close>: a falsy value is \<open>"NA"\<close>; otherwise \<open>val.strip()\<close> is called, which only
  a string has.
\<close>

definition clean :: "pyval \<Rightarrow> py_error + pystr" where
  "clean val =
     (if \<not> truthy val then Inr NA
      else case val of
             PStr v \<Rightarrow> (let s = py_strip v in Inr (if s \<noteq> [] then s else NA))
           | _ \<Rightarrow> Inl AttributeError)"

text \<open>\<open>data.get(key, "NA")\<close>.\<close>

definition data_get :: "(pystr \<rightharpoonup> pyval) \<Rightarrow> pystr \<Rightarrow> pyval" where
  "data_get data key = (case data key of Some v \<Rightarrow> v | None \<Rightarrow> PStr NA)"

text \<open>\<open>re.split(r"&|,|/| and ", name)\<close>.\<close>

fun split_org :: "pystr \<Rightarrow> pystr \<Rightarrow> pystr list" where
  "split_org cur [] = [cur]"
| "split_org cur (c # s) =
     (if c = 38 \<or> c = 44 \<or> c = 47 then cur # split_org [] s
      else if prefix [32, 97, 110, 100, 32] (c # s) then cur # split_org [] (drop 4 s)
      else split_org (cur @ [c]) s)"

definition org_parts :: "pystr \<Rightarrow> pystr list" where
  "org_parts name = map py_strip (filter (\<lambda>p. py_strip p \<noteq> []) (split_org [] name))"

definition person_tokens :: "pystr \<Rightarrow> pystr list" where
  "person_tokens name = filter (\<lambda>t. length t > 2) (re_split_class isspace name)"

definition role_tokens :: "pystr \<Rightarrow> pystr list" where
  "role_tokens role =
     filter (\<lambda>t. length t > 2)
       (re_split_class (\<lambda>c. isspace c \<or> c = 47 \<or> c = 38 \<or> c = 44 \<or> c = 45) role)"

definition validate_org :: "unicode_db \<Rightarrow> pystr \<Rightarrow> pystr \<Rightarrow> pystr" where
  "validate_org U content_norm name =
     (if name = NA then NA
      else if list_ex (\<lambda>p. py_in (py_lower U p) content_norm) (org_parts name) then name
      else NA)"

definition validate_person :: "unicode_db \<Rightarrow> pystr \<Rightarrow> pystr \<Rightarrow> pystr" where
  "validate_person U content_norm name =
     (if name = NA then NA
      else if list_ex (\<lambda>t. py_in (py_lower U t) content_norm) (person_tokens name) then name
      else NA)"

definition validate_role :: "unicode_db \<Rightarrow> pystr \<Rightarrow> pystr \<Rightarrow> pystr" where
  "validate_role U content_norm role =
     (if role = NA then NA
      else if list_ex (\<lambda>t. py_in (py_lower U t) content_norm) (role_tokens role) then role
      else NA)"

definition all_na :: deal where
  "all_na =
     \<lparr>deal_value = NA, deal_advisor = NA, investor_or_pe = NA, buyer = NA, seller = NA,
      buyer_lead_name = NA, buyer_lead_role = NA, investor_lead_name = NA,
      investor_lead_role = NA, seller_lead_name = NA, seller_lead_role = NA\<rparr>"

text \<open>
  One assignment \<open>x = clean(data.get(key, "NA"))\<close> followed by the rest of the
  function: an exception raised by \<open>clean\<close> ends the function.
\<close>

definition then_clean ::
  "(pystr \<rightharpoonup> pyval) \<Rightarrow> pystr \<Rightarrow> (pystr \<Rightarrow> py_error + 'a) \<Rightarrow> py_error + 'a" where
  "then_clean data key k =
     (case clean (data_get data key) of Inl e \<Rightarrow> Inl e | Inr v \<Rightarrow> k v)"

text \<open>\<open>content_norm\<close>: \<open>" ".join(content.split()).lower()\<close>.\<close>

definition content_norm_of :: "unicode_db \<Rightarrow> pystr \<Rightarrow> pystr" where
  "content_norm_of U c = py_lower U (collapse c)"

text \<open>
  \<open>ai_extract_deal_metadata\<close> for a non-empty content, given the dictionary \<open>data\<close>
  that the \<open>try\<close> block has produced: the deal value, the ten cleaned proposals in
  the order of the source, their validation, and the advisor label.
\<close>

definition validated_deal :: "unicode_db \<Rightarrow> pystr \<Rightarrow> (pystr \<rightharpoonup> pyval) \<Rightarrow> py_error + deal" where
  "validated_deal U c data =
     (let deal_value = extract_deal_value_from_text U c;
          content_norm = content_norm_of U c
      in
        then_clean data (asc ''investor_or_pe'') (\<lambda>investor_or_pe.
        then_clean data (asc ''buyer'') (\<lambda>buyer.
        then_clean data (asc ''seller'') (\<lambda>seller.
        then_clean data (asc ''advisor_firm'') (\<lambda>advisor_firm.
        then_clean data (asc ''buyer_lead_name'') (\<lambda>buyer_lead_name.
        then_clean data (asc ''buyer_lead_role'') (\<lambda>buyer_lead_role.
        then_clean data (asc ''investor_lead_name'') (\<lambda>investor_lead_name.
        then_clean data (asc ''investor_lead_role'') (\<lambda>investor_lead_role.
        then_clean data (asc ''seller_lead_name'') (\<lambda>seller_lead_name.
        then_clean data (asc ''seller_lead_role'') (\<lambda>seller_lead_role.
          let investor_or_pe = validate_org U content_norm investor_or_pe;
              advisor_firm = validate_org U content_norm advisor_firm;
              buyer = validate_org U content_norm buyer;
              seller = validate_org U content_norm seller;
              buyer_lead_name = validate_person U content_norm buyer_lead_name;
              investor_lead_name = validate_person U content_norm investor_lead_name;
              seller_lead_name = validate_person U content_norm seller_lead_name;
              buyer_lead_role = validate_role U content_norm buyer_lead_role;
              investor_lead_role = validate_role U content_norm investor_lead_role;
              seller_lead_role = validate_role U content_norm seller_lead_role;
              deal_advisor =
                (if investor_or_pe \<noteq> NA then investor_or_pe
                 else if advisor_firm \<noteq> NA then advisor_firm
                 else if buyer \<noteq> NA then buyer
                 else if seller \<noteq> NA then seller
                 else NA)
          in Inr \<lparr>deal_value = deal_value, deal_advisor = deal_advisor,
                  investor_or_pe = investor_or_pe, buyer = buyer, seller = seller,
                  buyer_lead_name = buyer_lead_name, buyer_lead_role = buyer_lead_role,
                  investor_lead_name = investor_lead_name,
                  investor_lead_role = investor_lead_role,
                  seller_lead_name = seller_lead_name,
                  seller_lead_role = seller_lead_role\<rparr>)))))))))))"

text \<open>The request sent for a content, and \<open>data\<close> after the \<open>try\<close> block.\<close>

definition metadata_request :: "pystr \<Rightarrow> request" where
  "metadata_request c = MetadataRequest (take MAX_CHARS_FOR_AI c)"

definition metadata_proposal :: "service \<Rightarrow> pystr \<Rightarrow> (pystr \<rightharpoonup> pyval)" where
  "metadata_proposal svc c =
     (case metadata_response svc (metadata_request c) of Some d \<Rightarrow> d | None \<Rightarrow> Map.empty)"

definition ai_extract_deal_metadata ::
  "unicode_db \<Rightarrow> service \<Rightarrow> pystr \<Rightarrow> (py_error + deal) \<times> request list" where
  "ai_extract_deal_metadata U svc c =
     (if c = [] then (Inr all_na, [])
      else (validated_deal U c (metadata_proposal svc c), [metadata_request c]))"

section \<open>Notions of the specification\<close>

text \<open>
  A value is attested in a content when it is the sentinel or when one of its parts
  (tokens), lower-cased, is a substring of the whitespace-collapsed, lower-cased content.
  The parts are those of the respective rule: the non-empty stripped pieces between
  \<open>&\<close>, \<open>,\<close>, \<open>/\<close> and \<open>" and "\<close> for an organisation, the whitespace-separated
  tokens longer than two for a person, the tokens longer than two between whitespace,
  \<open>/\<close>, \<open>&\<close>, \<open>,\<close> and \<open>-\<close> for a role.
\<close>

definition attested_org :: "unicode_db \<Rightarrow> pystr \<Rightarrow> pystr \<Rightarrow> bool" where
  "attested_org U c v =
     (v = NA \<or> list_ex (\<lambda>p. py_in (py_lower U p) (py_lower U (collapse c))) (org_parts v))"

definition attested_person :: "unicode_db \<Rightarrow> pystr \<Rightarrow> pystr \<Rightarrow> bool" where
  "attested_person U c v =
     (v = NA \<or> list_ex (\<lambda>t. py_in (py_lower U t) (py_lower U (collapse c))) (person_tokens v))"

definition attested_role :: "unicode_db \<Rightarrow> pystr \<Rightarrow> pystr \<Rightarrow> bool" where
  "attested_role U c v =
     (v = NA \<or> list_ex (\<lambda>t. py_in (py_lower U t) (py_lower U (collapse c))) (role_tokens v))"

text \<open>
  A field is verbatim the cleaned proposal when it is the sentinel or exactly what
  \<open>clean\<close> returned for the value proposed under its key.
\<close>

definition cleaned_or_na :: "(pystr \<rightharpoonup> pyval) \<Rightarrow> pystr \<Rightarrow> pystr \<Rightarrow> bool" where
  "cleaned_or_na data key v = (v = NA \<or> clean (data_get data key) = Inr v)"

definition deal_verbatim :: "(pystr \<rightharpoonup> pyval) \<Rightarrow> deal \<Rightarrow> bool" where
  "deal_verbatim data d =
     (cleaned_or_na data (asc ''investor_or_pe'') (investor_or_pe d) \<and>
      cleaned_or_na data (asc ''buyer'') (buyer d) \<and>
      cleaned_or_na data (asc ''seller'') (seller d) \<and>
      cleaned_or_na data (asc ''buyer_lead_name'') (buyer_lead_name d) \<and>
      cleaned_or_na data (asc ''buyer_lead_role'') (buyer_lead_role d) \<and>
      cleaned_or_na data (asc ''investor_lead_name'') (investor_lead_name d) \<and>
      cleaned_or_na data (asc ''investor_lead_role'') (investor_lead_role d) \<and>
      cleaned_or_na data (asc ''seller_lead_name'') (seller_lead_name d) \<and>
      cleaned_or_na data (asc ''seller_lead_role'') (seller_lead_role d))"

text \<open>The first timestamp entry's date match, if there is one.\<close>

definition first_timestamp_match :: "unicode_db \<Rightarrow> article \<Rightarrow> (pystr \<times> pystr \<times> pystr) option" where
  "first_timestamp_match U a =
     (case get_timestamps a of [] \<Rightarrow> None | ts # _ \<Rightarrow> search_date U ts)"

definition deal_attested :: "unicode_db \<Rightarrow> pystr \<Rightarrow> deal \<Rightarrow> bool" where
  "deal_attested U c d =
     (attested_org U c (investor_or_pe d) \<and> attested_org U c (buyer d) \<and>
      attested_org U c (seller d) \<and> attested_org U c (deal_advisor d) \<and>
      attested_person U c (buyer_lead_name d) \<and> attested_person U c (investor_lead_name d) \<and>
      attested_person U c (seller_lead_name d) \<and>
      attested_role U c (buyer_lead_role d) \<and> attested_role U c (investor_lead_role d) \<and>
      attested_role U c (seller_lead_role d))"

text \<open>A press release and a proposal of the service, used to run the program.\<close>

definition example_content :: pystr where
  "example_content = asc ''Acme Corp  acquired Foo Inc. Jane Doe, CEO of Acme, said so.''"

definition example_proposal :: "pystr \<rightharpoonup> pyval" where
  "example_proposal =
     [asc ''buyer'' \<mapsto> PStr (asc '' Acme Corp ''),
      asc ''seller'' \<mapsto> PStr (asc ''Bar Ltd''),
      asc ''investor_or_pe'' \<mapsto> PNone,
      asc ''buyer_lead_name'' \<mapsto> PStr (asc ''Jane Doe''),
      asc ''buyer_lead_role'' \<mapsto> PStr (asc ''CEO''),
      asc ''seller_lead_role'' \<mapsto> PStr (asc ''Chairman'')]"

definition example_service :: service where
  "example_service =
     \<lparr>summary_response = (\<lambda>r. None), metadata_response = (\<lambda>r. Some example_proposal)\<rparr>"

definition example_deal :: deal where
  "example_deal =
     \<lparr>deal_value = NA, deal_advisor = asc ''Acme Corp'', investor_or_pe = NA,
      buyer = asc ''Acme Corp'', seller = NA,
      buyer_lead_name = asc ''Jane Doe'', buyer_lead_role = asc ''CEO'',
      investor_lead_name = NA, investor_lead_role = NA,
      seller_lead_name = NA, seller_lead_role = NA\<rparr>"

text \<open>Articles used to run the date normaliser.\<close>

definition dated_article :: article where
  "dated_article =
     \<lparr>title = None, content = Some (asc ''Signed on Dec. 1, 2024 in Paris''), url = None,
      timestamp = Some [asc ''Nov. 26, 2025'']\<rparr>"

definition late_stamp_article :: article where
  "late_stamp_article =
     \<lparr>title = None, content = Some (asc ''Signed on Dec. 1, 2024 in Paris''), url = None,
      timestamp = Some [asc ''n/a'', asc ''Nov. 26, 2025'']\<rparr>"

definition undated_article :: article where
  "undated_article =
     \<lparr>title = None, content = Some (asc ''No date is given here''), url = None,
      timestamp = Some [asc ''n/a'']\<rparr>"

text \<open>
  The first two sentences of the release body, joined and stripped: \<open>summary\<close> in
  \<open>simple_summary\<close> before the length test.
\<close>

definition two_sentences :: "pystr \<Rightarrow> pystr" where
  "two_sentences c =
     (let core = strip_prnewswire_boilerplate c
      in if core = [] then []
         else py_strip (py_join [32] (take 2 (split_sentences None False [] core))))"

text \<open>The article of the end-to-end scenario, and a service whose every call fails.\<close>

definition acme_content :: pystr where
  "acme_content =
     asc ''(PRNewswire) -- Acme Corp acquired Foo Inc for USD 240 million. Jane Doe, CEO of Acme, said the deal expands reach.''"

definition acme_article :: article where
  "acme_article =
     \<lparr>title = Some (asc ''Acme Acquires Foo''), content = Some acme_content, url = None,
      timestamp = Some [asc ''Nov. 26, 2025'']\<rparr>"

definition failing_service :: service where
  "failing_service = \<lparr>summary_response = (\<lambda>r. None), metadata_response = (\<lambda>r. None)\<rparr>"

text \<open>
  What the generative summariser returns for an article (the empty string when it is not
  called or fails), and whether a summary contains, lower-cased, some whitespace-separated
  token of the title that has at least four code points after stripping the surrounding
  punctuation.
\<close>

definition generative_summary :: "unicode_db \<Rightarrow> service \<Rightarrow> article \<Rightarrow> pystr" where
  "generative_summary U svc a =
     (case get_pretty_date U a of
        Inl e \<Rightarrow> []
      | Inr d \<Rightarrow> fst (ai_summarise_with_ollama svc (get_or_empty (content a)) d))"

definition has_title_token :: "unicode_db \<Rightarrow> pystr \<Rightarrow> pystr \<Rightarrow> bool" where
  "has_title_token U summary t =
     list_ex (\<lambda>w. 4 \<le> length (py_strip_chars (asc '' ,.&()/-'') w) \<and>
                 py_in (py_lower U (py_strip_chars (asc '' ,.&()/-'') w)) (py_lower U summary))
       (py_split t)"

text \<open>A service that answers every summary request with the same text.\<close>

definition chatty_service :: service where
  "chatty_service =
     \<lparr>summary_response = (\<lambda>r. Some (asc '' ACME CORP bought a rival. '')),
      metadata_response = (\<lambda>r. None)\<rparr>"

text \<open>
  The shape of a returned deal value: it begins with a letter-case variant (as the
  pattern's case-insensitive matching accepts it) of one of the markers \<open>USD\<close>,
  \<open>EUR\<close>, \<open>GBP\<close>, \<open>CAD\<close>, \<open>INR\<close>, \<open>Rs.\<close>, \<open>Rs\<close>, followed by a digit or
  by one space and a digit.
\<close>

definition ascii_markers :: "pystr list" where
  "ascii_markers =
     [asc ''USD'', asc ''EUR'', asc ''GBP'', asc ''CAD'', asc ''INR'', asc ''Rs.'', asc ''Rs'']"

definition amount_follows :: "pystr \<Rightarrow> bool" where
  "amount_follows rest =
     (case rest of [] \<Rightarrow> False
      | d # rest' \<Rightarrow>
          is_09 d \<or> (d = 32 \<and> (case rest' of [] \<Rightarrow> False | e # _ \<Rightarrow> is_09 e)))"

definition marked_amount :: "pystr \<Rightarrow> bool" where
  "marked_amount r =
     list_ex (\<lambda>m. case ci_prefix m r of None \<Rightarrow> False | Some rest \<Rightarrow> amount_follows rest)
       ascii_markers"

text \<open>
  The matches about whose normalised value nothing is stated below: the text matched by
  the currency group is a match of \<open>C$\<close>, of one of the two non-ASCII alternatives of
  the pattern, or of \<open>US$\<close> in another letter case than \<open>US$\<close> itself.
\<close>

definition slip_marker :: "pystr \<Rightarrow> bool" where
  "slip_marker mk =
     (if mk = asc ''US$'' then False
      else list_ex (\<lambda>m. ci_prefix m mk = Some [])
             [asc ''US$'', asc ''C$'', [8218, 199, 168], [172, 163]])"

text \<open>
  The parts of a returned deal value, for a match whose currency group matched \<open>mk\<close>
  and whose remaining part matched \<open>amt\<close>: the amount without the surrounding
  whitespace and with every inner run of whitespace collapsed to one space; the single
  space that is kept between the marker and the amount when whitespace separates them
  in the text; and the markers that are returned as they are written in the text, the
  letter-case variants of \<open>USD\<close>, \<open>EUR\<close>, \<open>GBP\<close>, \<open>CAD\<close>, \<open>INR\<close>,
  \<open>Rs.\<close> and \<open>Rs\<close>.
\<close>

definition amount_text :: "pystr \<Rightarrow> pystr" where
  "amount_text amt = py_strip (re_sub_ws (py_strip amt))"

definition gap :: "pystr \<Rightarrow> pystr" where
  "gap amt = (case amt of [] \<Rightarrow> [] | x # _ \<Rightarrow> if isspace x then [32] else [])"

definition plain_marker :: "pystr \<Rightarrow> bool" where
  "plain_marker mk = list_ex (\<lambda>m. ci_prefix m mk = Some []) ascii_markers"

text \<open>
  The shape that the specification states: the value begins with one of the tokens
  \<open>USD\<close>, \<open>EUR\<close>, the euro sign (U+20AC), \<open>GBP\<close>, the pound sign (U+00A3),
  \<open>C$\<close>, \<open>CAD\<close>, \<open>INR\<close>, \<open>Rs.\<close>, and a numeric literal follows, possibly after
  whitespace.
\<close>

definition known_currency_tokens :: "pystr list" where
  "known_currency_tokens =
     [asc ''USD'', asc ''EUR'', [8364], asc ''GBP'', [163], asc ''C$'', asc ''CAD'',
      asc ''INR'', asc ''Rs.'']"

definition begins_with_known_token :: "pystr \<Rightarrow> bool" where
  "begins_with_known_token r =
     list_ex (\<lambda>tok. prefix tok r \<and>
                (case dropWhile isspace (drop (length tok) r) of
                   [] \<Rightarrow> False | d # _ \<Rightarrow> is_09 d))
       known_currency_tokens"

section \<open>Strings: basic facts\<close>

lemma py_in_sublist: "py_in sub s \<longleftrightarrow> sublist sub s"
  by (induction s) (auto simp: sublist_Cons_right)

section \<open>The validators\<close>

lemma validate_org_attested: "attested_org U c (validate_org U (content_norm_of U c) v)"
  by (simp add: attested_org_def validate_org_def content_norm_of_def)

lemma validate_person_attested: "attested_person U c (validate_person U (content_norm_of U c) v)"
  by (simp add: attested_person_def validate_person_def content_norm_of_def)

lemma validate_role_attested: "attested_role U c (validate_role U (content_norm_of U c) v)"
  by (simp add: attested_role_def validate_role_def content_norm_of_def)

lemma attested_NA: "attested_org U c NA" "attested_person U c NA" "attested_role U c NA"
  by (simp_all add: attested_org_def attested_person_def attested_role_def)

lemma then_clean_Inr:
  "then_clean data key k = Inr d \<Longrightarrow> \<exists>v. clean (data_get data key) = Inr v \<and> k v = Inr d"
  by (auto simp: then_clean_def split: sum.splits)

lemma validated_deal_attested:
  assumes "validated_deal U c data = Inr d"
  shows "deal_attested U c d"
  using assms unfolding validated_deal_def Let_def
  apply -
  apply (drule then_clean_Inr, elim exE conjE)+
  apply (clarsimp simp: deal_attested_def validate_org_attested validate_person_attested
      validate_role_attested attested_NA)
  done

lemma example_run:
  "ai_extract_deal_metadata plain_db example_service example_content =
     (Inr example_deal, [MetadataRequest example_content])"
  by (simp add: ai_extract_deal_metadata_def example_service_def example_content_def
      example_proposal_def example_deal_def validated_deal_def then_clean_def clean_def
      metadata_proposal_def metadata_request_def
      data_get_def NA_def asc_def MAX_CHARS_FOR_AI_def py_strip_def isspace_def
      validate_org_def validate_person_def validate_role_def org_parts_def person_tokens_def
      role_tokens_def re_split_class_def content_norm_of_def collapse_def py_split_def
      py_lower_def ascii_lower_def plain_db_def extract_deal_value_from_text_def
      currency_markers_def ci_match_def is_AZ_def is_az_def Let_def)

text \<open>
  C1. For every content and every proposal of the service: when
  \<open>ai_extract_deal_metadata\<close> returns a record, each organisation field, each
  person-name field and each role field of it (and the advisor label chosen among the
  validated organisation values, through which \<open>advisor_firm\<close> reaches the output) is
  the sentinel \<open>"NA"\<close> or has a part that, lower-cased, is a substring of the
  whitespace-collapsed, lower-cased content. The same holds for whatever value the
  organisation, person and role validators return.
\<close>

theorem metadata_fields_attested:
  assumes "ai_extract_deal_metadata U svc c = (Inr d, reqs)"
  shows "deal_attested U c d \<and>
         attested_org U c (validate_org U (content_norm_of U c) v) \<and>
         attested_person U c (validate_person U (content_norm_of U c) v) \<and>
         attested_role U c (validate_role U (content_norm_of U c) v)"
proof (cases "c = []")
  case True
  with assms have "d = all_na"
    by (simp add: ai_extract_deal_metadata_def)
  then have "deal_attested U c d"
    by (simp add: deal_attested_def all_na_def attested_NA)
  then show ?thesis
    by (simp add: validate_org_attested validate_person_attested validate_role_attested)
next
  case False
  with assms have "validated_deal U c (metadata_proposal svc c) = Inr d"
    by (simp add: ai_extract_deal_metadata_def)
  then have "deal_attested U c d"
    by (rule validated_deal_attested)
  then show ?thesis
    by (simp add: validate_org_attested validate_person_attested validate_role_attested)
qed

theorem metadata_fields_attested_witness:
  "ai_extract_deal_metadata plain_db example_service example_content =
     (Inr example_deal, [MetadataRequest example_content]) \<and>
   deal_attested plain_db example_content example_deal \<and>
   buyer example_deal = asc ''Acme Corp'' \<and> seller example_deal = NA"
  using metadata_fields_attested [OF example_run] example_run
  by (simp add: example_deal_def)

text \<open>
  C9. Each validator returns its argument unchanged or the sentinel \<open>"NA"\<close>; so
  every field of a returned record is the sentinel or exactly the cleaned value that
  the service proposed under the field's key.
\<close>

theorem validation_identity_or_sentinel:
  "(validate_org U cn v = v \<or> validate_org U cn v = NA) \<and>
   (validate_person U cn v = v \<or> validate_person U cn v = NA) \<and>
   (validate_role U cn v = v \<or> validate_role U cn v = NA) \<and>
   (ai_extract_deal_metadata U svc c = (Inr d, reqs) \<longrightarrow>
      deal_verbatim (metadata_proposal svc c) d)"
proof -
  have org: "validate_org U cn v = v \<or> validate_org U cn v = NA" for cn v
    by (simp add: validate_org_def)
  have person: "validate_person U cn v = v \<or> validate_person U cn v = NA" for cn v
    by (simp add: validate_person_def)
  have role: "validate_role U cn v = v \<or> validate_role U cn v = NA" for cn v
    by (simp add: validate_role_def)
  have "deal_verbatim (metadata_proposal svc c) d"
    if run: "ai_extract_deal_metadata U svc c = (Inr d, reqs)"
  proof (cases "c = []")
    case True
    with run have "d = all_na"
      by (simp add: ai_extract_deal_metadata_def)
    then show ?thesis
      by (simp add: deal_verbatim_def cleaned_or_na_def all_na_def)
  next
    case False
    with run have "validated_deal U c (metadata_proposal svc c) = Inr d"
      by (simp add: ai_extract_deal_metadata_def)
    then show ?thesis
      unfolding validated_deal_def Let_def
      apply -
      apply (drule then_clean_Inr, elim exE conjE)+
      apply (clarsimp simp: deal_verbatim_def cleaned_or_na_def)
      apply (insert org person role)
      apply (intro conjI)
              apply metis+
      done
  qed
  with org person role show ?thesis
    by blast
qed

theorem validation_identity_or_sentinel_witness:
  "ai_extract_deal_metadata plain_db example_service example_content =
     (Inr example_deal, [MetadataRequest example_content]) \<and>
   deal_verbatim (metadata_proposal example_service example_content) example_deal"
  using validation_identity_or_sentinel
    [of plain_db _ _ example_service example_content example_deal
        "[MetadataRequest example_content]"]
    example_run
  by simp

section \<open>The date normaliser\<close>

lemmas date_eval =
  extract_date_from_timestamp_list_def extract_date_from_content_def get_pretty_date_def
  get_timestamps_def get_or_empty_def collapse_def py_split_def isspace_def
  asc_def date_at_def is_AZ_def is_az_def isdecimal_def py_decimal_def starts_with_def
  format_date_def normalize_month_def MONTH_MAP_def py_int_def Let_def

lemma int_digits_total:
  "list_all (isdecimal U) s \<Longrightarrow> \<exists>n. int_digits U acc s = Inr n"
  by (induction s arbitrary: acc) (auto simp: isdecimal_def split: option.splits)

lemma take_takeWhile_all: "list_all P (take n (takeWhile P xs))"
  unfolding list_all_iff using in_set_takeD set_takeWhileD by metis

lemma date_at_day:
  assumes "date_at U s = Some (m, day, y)"
  shows "day \<noteq> [] \<and> list_all (isdecimal U) day"
proof (cases s)
  case Nil
  with assms show ?thesis by (simp add: date_at_def)
next
  case (Cons c0 s1)
  define s4 where "s4 = dropWhile (\<lambda>c. c = 32)
     (drop (length (if starts_with 46 (drop (length (take 9 (takeWhile is_az s1))) s1)
                    then [46::nat] else []))
        (drop (length (take 9 (takeWhile is_az s1))) s1))"
  have "date_at U (c0 # s1) = Some (m, day, y)"
    using assms Cons by simp
  then have "day = take 2 (takeWhile (isdecimal U) s4) \<and> day \<noteq> []"
    unfolding date_at_def Let_def list.case s4_def
    by (metis (no_types, lifting) option.distinct(1) option.inject prod.inject)
  then show ?thesis
    using take_takeWhile_all by blast
qed

lemma search_date_day:
  "search_date U s = Some (m, day, y) \<Longrightarrow> day \<noteq> [] \<and> list_all (isdecimal U) day"
  by (induction s) (auto split: option.splits dest: date_at_day)

text \<open>\<open>int(day)\<close> never raises on a matched day, and a formatted date is not empty.\<close>

lemma format_date_total:
  assumes "search_date U s = Some g"
  shows "\<exists>r. format_date U g = Inr r \<and> r \<noteq> []"
proof -
  obtain m day y where g: "g = (m, day, y)" by (cases g)
  with assms have "day \<noteq> []" "list_all (isdecimal U) day"
    using search_date_day by blast+
  then obtain n where "py_int U day = Inr n"
    using int_digits_total [of U day 0] by (auto simp: py_int_def)
  with g show ?thesis
    by (simp add: format_date_def)
qed

lemma get_pretty_date_eq:
  "get_pretty_date U a =
     (case first_timestamp_match U a of
        Some g \<Rightarrow> format_date U g
      | None \<Rightarrow> extract_date_from_content U (get_or_empty (content a)))"
proof (cases "first_timestamp_match U a")
  case None
  then show ?thesis
    by (auto simp: get_pretty_date_def first_timestamp_match_def
        extract_date_from_timestamp_list_def split: list.splits option.splits)
next
  case (Some g)
  then obtain ts rest where ts: "get_timestamps a = ts # rest" "search_date U ts = Some g"
    by (auto simp: first_timestamp_match_def split: list.splits)
  from format_date_total [OF ts(2)] obtain r where "format_date U g = Inr r" "r \<noteq> []"
    by blast
  with ts Some show ?thesis
    by (simp add: get_pretty_date_def extract_date_from_timestamp_list_def)
qed

lemma extract_date_from_content_total: "\<exists>r. extract_date_from_content U c = Inr r"
proof (cases "search_date U (collapse c)")
  case None
  then show ?thesis by (simp add: extract_date_from_content_def)
next
  case (Some g)
  then obtain r where "format_date U g = Inr r"
    using format_date_total by blast
  with Some show ?thesis by (simp add: extract_date_from_content_def)
qed

lemma get_pretty_date_total: "\<exists>r. get_pretty_date U a = Inr r"
proof (cases "first_timestamp_match U a")
  case (Some g)
  then obtain ts rest where "get_timestamps a = ts # rest" "search_date U ts = Some g"
    by (auto simp: first_timestamp_match_def split: list.splits)
  then obtain r where "format_date U g = Inr r"
    using format_date_total by blast
  with Some show ?thesis
    by (simp add: get_pretty_date_eq)
next
  case None
  then show ?thesis
    using extract_date_from_content_total by (simp add: get_pretty_date_eq)
qed

lemma first_timestamp_match_content [simp]:
  "first_timestamp_match U (a\<lparr>content := c\<rparr>) = first_timestamp_match U a"
  by (simp add: first_timestamp_match_def get_timestamps_def)

text \<open>A date in the first timestamp entry gives a non-empty pretty date.\<close>

lemma first_timestamp_match_dated:
  assumes "first_timestamp_match U a = Some g"
  shows "\<exists>r. get_pretty_date U a = Inr r \<and> r \<noteq> []"
proof -
  from assms obtain ts rest where "get_timestamps a = ts # rest" "search_date U ts = Some g"
    by (auto simp: first_timestamp_match_def split: list.splits)
  then obtain r where "format_date U g = Inr r" "r \<noteq> []"
    using format_date_total by blast
  with assms show ?thesis
    by (simp add: get_pretty_date_eq)
qed

text \<open>
  C7. When the first timestamp entry is \<open>"Nov. 26, 2025"\<close> the normalised date is
  \<open>"Nov 26, 2025"\<close>, and when it is \<open>"November 3, 2025"\<close> the date is
  \<open>"Nov 3, 2025"\<close>, whatever the other entries and the other fields of the article.
\<close>

theorem date_round_trip:
  "get_pretty_date U (a\<lparr>timestamp := Some (asc ''Nov. 26, 2025'' # rest)\<rparr>) =
     Inr (asc ''Nov 26, 2025'') \<and>
   get_pretty_date U (a\<lparr>timestamp := Some (asc ''November 3, 2025'' # rest)\<rparr>) =
     Inr (asc ''Nov 3, 2025'')"
  by (simp add: date_eval)

text \<open>
  C6, as stated, at an article whose first timestamp entry has no date and whose second
  entry has one: an entry of the timestamp list yields a date match, and yet the date
  comes from the content.
\<close>

theorem content_consulted_despite_timestamp_match:
  "search_date plain_db (asc ''Nov. 26, 2025'') = Some (asc ''Nov.'', asc ''26'', asc ''2025'') \<and>
   get_timestamps late_stamp_article = [asc ''n/a'', asc ''Nov. 26, 2025''] \<and>
   get_pretty_date plain_db late_stamp_article = Inr (asc ''Dec 1, 2024'') \<and>
   get_pretty_date plain_db (late_stamp_article\<lparr>content := Some []\<rparr>) = Inr []"
  by (simp add: late_stamp_article_def date_eval)

text \<open>
  C6, amended. \<open>get_pretty_date\<close> never raises. It matches the pattern against the
  first timestamp entry only; when that entry has a match the date is formatted from it
  and the content plays no part; when there is no first entry or it has no match, the
  same pattern is matched against the whitespace-collapsed content; when that has no
  match either the result is the empty string. Later timestamp entries are never tried.
\<close>

theorem pretty_date_source_order:
  "(\<exists>r. get_pretty_date U a = Inr r) \<and>
   get_pretty_date U a =
     (case first_timestamp_match U a of
        Some g \<Rightarrow> format_date U g
      | None \<Rightarrow> extract_date_from_content U (get_or_empty (content a))) \<and>
   extract_date_from_content U c =
     (case search_date U (collapse c) of None \<Rightarrow> Inr [] | Some g \<Rightarrow> format_date U g) \<and>
   (first_timestamp_match U a = Some g \<longrightarrow>
      get_pretty_date U (a\<lparr>content := c'\<rparr>) = get_pretty_date U a) \<and>
   (first_timestamp_match U a = None \<and>
    search_date U (collapse (get_or_empty (content a))) = None \<longrightarrow>
      get_pretty_date U a = Inr [])"
proof -
  have "get_pretty_date U (a\<lparr>content := c'\<rparr>) = get_pretty_date U a"
    if "first_timestamp_match U a = Some g"
    using that by (simp add: get_pretty_date_eq)
  moreover have "get_pretty_date U a = Inr []"
    if "first_timestamp_match U a = None \<and>
        search_date U (collapse (get_or_empty (content a))) = None"
    using that by (simp add: get_pretty_date_eq extract_date_from_content_def)
  ultimately show ?thesis
    using get_pretty_date_total [of U a] get_pretty_date_eq [of U a]
    by (simp add: extract_date_from_content_def)
qed

theorem pretty_date_source_order_witness:
  "first_timestamp_match plain_db dated_article = Some (asc ''Nov.'', asc ''26'', asc ''2025'') \<and>
   get_pretty_date plain_db (dated_article\<lparr>content := Some []\<rparr>) =
     get_pretty_date plain_db dated_article \<and>
   get_pretty_date plain_db dated_article = Inr (asc ''Nov 26, 2025'') \<and>
   first_timestamp_match plain_db undated_article = None \<and>
   search_date plain_db (collapse (get_or_empty (content undated_article))) = None \<and>
   get_pretty_date plain_db undated_article = Inr []"
proof -
  have 1: "first_timestamp_match plain_db dated_article =
      Some (asc ''Nov.'', asc ''26'', asc ''2025'')"
    by (simp add: first_timestamp_match_def dated_article_def date_eval)
  have 2: "first_timestamp_match plain_db undated_article = None \<and>
      search_date plain_db (collapse (get_or_empty (content undated_article))) = None"
    by (simp add: first_timestamp_match_def undated_article_def date_eval)
  have 3: "get_pretty_date plain_db dated_article = Inr (asc ''Nov 26, 2025'')"
    by (simp add: dated_article_def date_eval)
  from 1 2 3
    pretty_date_source_order [of plain_db dated_article _ "(asc ''Nov.'', asc ''26'', asc ''2025'')" "Some []"]
    pretty_date_source_order [of plain_db undated_article]
  show ?thesis by simp
qed

section \<open>The fallback summary\<close>

lemmas summary_eval =
  simple_summary_def strip_prnewswire_boilerplate_def collapse_def py_split_def py_find_def
  py_find_start_def py_strip_def py_rfind_def isspace_def asc_def Let_def

lemma rfind_from_char:
  "rfind_from [c] s i seen = r \<Longrightarrow>
     (c \<notin> set s \<and> r = seen) \<or>
     (\<exists>j<length s. r = Some (i + j) \<and> s ! j = c \<and> c \<notin> set (drop (Suc j) s))"
proof (induction s arbitrary: i seen)
  case Nil
  then show ?case by simp
next
  case (Cons x xs)
  from Cons.prems have "rfind_from [c] xs (Suc i) (if x = c then Some i else seen) = r"
    by (simp add: eq_commute)
  from Cons.IH [OF this] show ?case
  proof
    assume "c \<notin> set xs \<and> r = (if x = c then Some i else seen)"
    then show ?thesis by (cases "x = c") auto
  next
    assume "\<exists>j<length xs. r = Some (Suc i + j) \<and> xs ! j = c \<and> c \<notin> set (drop (Suc j) xs)"
    then obtain j where "j < length xs" "r = Some (Suc i + j)" "xs ! j = c"
      "c \<notin> set (drop (Suc j) xs)" by blast
    then have "Suc j < length (x # xs) \<and> r = Some (i + Suc j) \<and> (x # xs) ! Suc j = c \<and>
        c \<notin> set (drop (Suc (Suc j)) (x # xs))" by simp
    then show ?thesis by blast
  qed
qed

text \<open>\<open>rfind\<close> of one code point: the index found holds it, and it does not occur later.\<close>

lemma py_rfind_char:
  "py_rfind [c] s = Some l \<Longrightarrow> l < length s \<and> s ! l = c \<and> c \<notin> set (drop (Suc l) s)"
  using rfind_from_char [of c s 0 None "Some l"] by (auto simp: py_rfind_def)

lemma simple_summary_cases:
  "simple_summary c n =
     (if length (two_sentences c) \<le> n then two_sentences c
      else (case py_rfind [32] (take n (two_sentences c)) of
              Some l \<Rightarrow> if l > 0 then take l (two_sentences c) else take n (two_sentences c)
            | None \<Rightarrow> take n (two_sentences c)) @ asc ''...'')"
proof -
  have "take l (take n xs) = take l xs"
    if "py_rfind [32] (take n xs) = Some l" for l and xs :: pystr
  proof -
    from py_rfind_char [OF that] have "l < length (take n xs)" by blast
    then have "l \<le> n" by simp
    then show ?thesis by (simp add: min_def)
  qed
  then show ?thesis
    by (auto simp: simple_summary_def two_sentences_def Let_def split: option.splits)
qed

lemma simple_summary_bound: "length (simple_summary c n) \<le> n + 3"
  by (auto simp: simple_summary_cases asc_def dest: py_rfind_char split: option.splits)

lemma simple_summary_long:
  assumes "n < length (two_sentences c)"
  shows "\<exists>short. simple_summary c n = short @ asc ''...'' \<and> prefix short (two_sentences c) \<and>
           length short \<le> n \<and>
           (short = take n (two_sentences c) \<or> two_sentences c ! length short = 32)"
proof (cases "py_rfind [32] (take n (two_sentences c))")
  case None
  with assms have "simple_summary c n = take n (two_sentences c) @ asc ''...''"
    by (simp add: simple_summary_cases)
  then show ?thesis
    by (metis length_take min.cobounded2 take_is_prefix)
next
  case (Some l)
  from py_rfind_char [OF Some] have l: "l < length (take n (two_sentences c))"
    "take n (two_sentences c) ! l = 32" by blast+
  then have ln: "l < n" "l < length (two_sentences c)" by simp_all
  with l have at: "two_sentences c ! l = 32" by simp
  show ?thesis
  proof (cases "l > 0")
    case True
    with assms Some have "simple_summary c n = take l (two_sentences c) @ asc ''...''"
      by (simp add: simple_summary_cases)
    moreover have "length (take l (two_sentences c)) = l"
      using ln by simp
    ultimately show ?thesis
      using at ln by (metis less_imp_le_nat take_is_prefix)
  next
    case False
    with assms Some have "simple_summary c n = take n (two_sentences c) @ asc ''...''"
      by (simp add: simple_summary_cases)
    then show ?thesis
      by (metis length_take min.cobounded2 take_is_prefix)
  qed
qed

lemma py_rfind_None: "py_rfind [c] s = None \<Longrightarrow> c \<notin> set s"
  using rfind_from_char [of c s 0 None None] by (auto simp: py_rfind_def)

text \<open>
  Where the cut falls: just before the last space of the first \<open>n\<close> code points, when
  there is one after the first position, and at \<open>n\<close> otherwise.
\<close>

lemma simple_summary_backoff:
  assumes "n < length (two_sentences c)"
  shows "\<exists>short. simple_summary c n = short @ asc ''...'' \<and>
           (32 \<in> set (drop 1 (take n (two_sentences c))) \<longrightarrow>
              0 < length short \<and> length short < n \<and> short = take (length short) (two_sentences c) \<and>
              two_sentences c ! length short = 32 \<and>
              32 \<notin> set (drop (Suc (length short)) (take n (two_sentences c)))) \<and>
           (32 \<notin> set (drop 1 (take n (two_sentences c))) \<longrightarrow>
              short = take n (two_sentences c))"
proof (cases "py_rfind [32] (take n (two_sentences c))")
  case None
  then have "32 \<notin> set (take n (two_sentences c))"
    by (rule py_rfind_None)
  then have no: "32 \<notin> set (drop 1 (take n (two_sentences c)))"
    using in_set_dropD by fastforce
  from None assms have "simple_summary c n = take n (two_sentences c) @ asc ''...''"
    by (simp add: simple_summary_cases)
  with no show ?thesis by blast
next
  case (Some l)
  from py_rfind_char [OF Some] have l: "l < length (take n (two_sentences c))"
    "take n (two_sentences c) ! l = 32"
    "32 \<notin> set (drop (Suc l) (take n (two_sentences c)))" by blast+
  then have ln: "l < n" "l < length (two_sentences c)" by simp_all
  with l have at: "two_sentences c ! l = 32" by simp
  show ?thesis
  proof (cases "l > 0")
    case True
    with assms Some have eq: "simple_summary c n = take l (two_sentences c) @ asc ''...''"
      by (simp add: simple_summary_cases)
    have len: "length (take l (two_sentences c)) = l"
      using ln by simp
    have "0 < length (take l (two_sentences c)) \<and> length (take l (two_sentences c)) < n \<and>
        take l (two_sentences c) = take (length (take l (two_sentences c))) (two_sentences c) \<and>
        two_sentences c ! length (take l (two_sentences c)) = 32 \<and>
        32 \<notin> set (drop (Suc (length (take l (two_sentences c)))) (take n (two_sentences c)))"
      using True ln at l(3) by (simp only: len) simp
    moreover have "32 \<in> set (drop 1 (take n (two_sentences c)))"
    proof -
      from True obtain k where k: "l = Suc k" by (cases l) auto
      with l(1) have "k < length (drop 1 (take n (two_sentences c)))" by (simp add: min_def)
      moreover have "drop 1 (take n (two_sentences c)) ! k = 32"
        using l(1,2) k by simp
      ultimately show ?thesis by (metis nth_mem)
    qed
    ultimately show ?thesis
      using eq by blast
  next
    case False
    then have "l = 0" by simp
    with l(3) have no: "32 \<notin> set (drop 1 (take n (two_sentences c)))" by simp
    from False assms Some have "simple_summary c n = take n (two_sentences c) @ asc ''...''"
      by (simp add: simple_summary_cases)
    with no show ?thesis by blast
  qed
qed

lemma acme_summary: "simple_summary acme_content 400 = acme_content"
  by (simp add: acme_content_def summary_eval)

lemma acme_two: "two_sentences acme_content = acme_content"
  by (simp add: acme_content_def two_sentences_def summary_eval)

lemma acme_summary_20: "simple_summary acme_content 20 = asc ''(PRNewswire) --...''"
  by (simp add: acme_content_def summary_eval)

lemma acme_length: "length acme_content = 115"
  by (simp add: acme_content_def asc_def)

lemma simple_summary_empty: "simple_summary [] n = []"
  by (simp add: summary_eval)

text \<open>A summary without a space is cut at the threshold: the bound is reached.\<close>

lemma ellipsis_bound_reached:
  "simple_summary (asc ''Supercalifragilisticexpialidocious'') 20 =
     asc ''Supercalifragilistic...'' \<and>
   length (simple_summary (asc ''Supercalifragilisticexpialidocious'') 20) = 23"
  by (simp add: summary_eval)

text \<open>
  C10. The deterministic summary with the default threshold has at most 403 code points
  (in general at most three more than the threshold). When the two-sentence summary fits
  the threshold it is returned as it is; when it is longer, the result is a prefix of
  it of at most the threshold's length, either cut exactly at the threshold or cut just
  before a space, followed by the three-character ellipsis. The space is the last one
  among the first \<open>n\<close> code points of the summary, when one occurs there after the
  first position; when none does, the cut is exactly at the threshold.
\<close>

theorem simple_summary_length:
  "length (simple_summary c 400) \<le> 403 \<and> length (simple_summary c n) \<le> n + 3 \<and>
   (length (two_sentences c) \<le> n \<longrightarrow> simple_summary c n = two_sentences c) \<and>
   (n < length (two_sentences c) \<longrightarrow>
      (\<exists>short. simple_summary c n = short @ asc ''...'' \<and> prefix short (two_sentences c) \<and>
         length short \<le> n \<and>
         (short = take n (two_sentences c) \<or> two_sentences c ! length short = 32))) \<and>
   (n < length (two_sentences c) \<longrightarrow>
      (\<exists>short. simple_summary c n = short @ asc ''...'' \<and>
         (32 \<in> set (drop 1 (take n (two_sentences c))) \<longrightarrow>
            0 < length short \<and> length short < n \<and>
            short = take (length short) (two_sentences c) \<and>
            two_sentences c ! length short = 32 \<and>
            32 \<notin> set (drop (Suc (length short)) (take n (two_sentences c)))) \<and>
         (32 \<notin> set (drop 1 (take n (two_sentences c))) \<longrightarrow>
            short = take n (two_sentences c))))"
proof -
  have fits: "simple_summary c n = two_sentences c" if "length (two_sentences c) \<le> n"
    using that by (simp add: simple_summary_cases)
  have default: "length (simple_summary c 400) \<le> 403"
    using simple_summary_bound [of c 400] by simp
  show ?thesis
    using default simple_summary_bound [of c n] simple_summary_long [of n c]
      simple_summary_backoff [of n c] fits
    by blast
qed

theorem simple_summary_length_witness:
  "length (two_sentences acme_content) = 115 \<and>
   simple_summary acme_content 400 = two_sentences acme_content \<and>
   simple_summary acme_content 20 = asc ''(PRNewswire) --'' @ asc ''...'' \<and>
   length (simple_summary acme_content 20) = 18 \<and>
   32 \<in> set (drop 1 (take 20 (two_sentences acme_content))) \<and>
   two_sentences acme_content ! 15 = 32 \<and>
   32 \<notin> set (drop 16 (take 20 (two_sentences acme_content)))"
proof -
  have cut: "32 \<in> set (drop 1 (take 20 (two_sentences acme_content))) \<and>
      two_sentences acme_content ! 15 = 32 \<and>
      32 \<notin> set (drop 16 (take 20 (two_sentences acme_content)))"
    by (simp add: acme_two) (simp add: acme_content_def asc_def)
  have "length (two_sentences acme_content) = 115 \<and>
      simple_summary acme_content 400 = two_sentences acme_content \<and>
      simple_summary acme_content 20 = asc ''(PRNewswire) --'' @ asc ''...'' \<and>
      length (simple_summary acme_content 20) = 18"
    using simple_summary_length [of acme_content 400] simple_summary_length [of acme_content 20]
    by (simp add: acme_two acme_length acme_summary_20) (simp add: asc_def)
  with cut show ?thesis by blast
qed

section \<open>Empty content and the end-to-end scenario\<close>

lemmas deal_eval =
  extract_deal_value_from_text_def collapse_def py_split_def isspace_def asc_def
  currency_markers_def ci_match_def is_AZ_def is_az_def ascii_lower_def amount_at_def
  digit_run_def is_09_def starts_with_def isdecimal_def py_decimal_def magnitudes_def
  normalize_value_def py_strip_def re_sub_ws_def NA_def Let_def

lemma acme_value: "extract_deal_value_from_text U acme_content = asc ''USD 240 million''"
  by (simp add: acme_content_def deal_eval)

lemma deal_value_empty: "extract_deal_value_from_text U [] = NA"
  by (simp add: extract_deal_value_from_text_def)

lemma date_content_empty: "extract_date_from_content U [] = Inr []"
  by (simp add: extract_date_from_content_def collapse_def py_split_def)

lemma get_pretty_date_empty_content:
  assumes "get_or_empty (content a) = []"
  shows "get_pretty_date U a = extract_date_from_timestamp_list U (get_timestamps a)"
proof (cases "extract_date_from_timestamp_list U (get_timestamps a)")
  case (Inl e)
  then show ?thesis by (simp add: get_pretty_date_def)
next
  case (Inr r)
  with assms show ?thesis
    by (simp add: get_pretty_date_def date_content_empty)
qed

lemma get_context_text_empty:
  assumes "get_or_empty (content a) = []"
  shows "get_context_text U svc a = (Inr [], [])"
proof -
  obtain d where "get_pretty_date U a = Inr d"
    using get_pretty_date_total by blast
  with assms show ?thesis
    by (simp add: get_context_text_def simple_summary_empty)
qed

lemma validated_deal_value:
  assumes "validated_deal U c data = Inr d"
  shows "deal_value d = extract_deal_value_from_text U c"
  using assms unfolding validated_deal_def Let_def
  apply -
  apply (drule then_clean_Inr, elim exE conjE)+
  apply clarsimp
  done

lemma get_context_text_failing:
  assumes "\<And>d. fst (ai_summarise_with_ollama svc c d) = []"
  shows "fst (get_context_text U svc (a\<lparr>content := Some c\<rparr>)) = Inr (simple_summary c 400)"
proof -
  obtain d where d: "get_pretty_date U (a\<lparr>content := Some c\<rparr>) = Inr d"
    using get_pretty_date_total by blast
  from assms [of d] show ?thesis
    by (cases "ai_summarise_with_ollama svc c d")
       (simp add: get_context_text_def d get_or_empty_def)
qed

lemma failing_summarise: "fst (ai_summarise_with_ollama failing_service c d) = []"
  by (simp add: ai_summarise_with_ollama_def failing_service_def Let_def)

text \<open>
  C8, as stated, at an article with empty content whose first timestamp entry has a
  date: \<open>get_pretty_date\<close> does not return the empty string.
\<close>

theorem pretty_date_nonempty_on_empty_content:
  "get_or_empty (content (dated_article\<lparr>content := Some []\<rparr>)) = [] \<and>
   get_pretty_date plain_db (dated_article\<lparr>content := Some []\<rparr>) = Inr (asc ''Nov 26, 2025'')"
  by (simp add: dated_article_def date_eval)

text \<open>
  C8, amended. On empty content no extractor raises and each returns its sentinel:
  \<open>extract_date_from_content\<close> and \<open>simple_summary\<close> return the empty string,
  \<open>extract_deal_value_from_text\<close> returns \<open>"NA"\<close>, \<open>ai_extract_deal_metadata\<close>
  returns the record of eleven \<open>"NA"\<close> and issues no request, \<open>get_context_text\<close>
  returns the empty string and issues no request. \<open>get_pretty_date\<close> returns what the
  first timestamp entry gives, which is the empty string when that entry has no date,
  and only then.
\<close>

theorem empty_content_degradation:
  "extract_date_from_content U [] = Inr [] \<and>
   get_pretty_date U (a\<lparr>content := Some []\<rparr>) =
     extract_date_from_timestamp_list U (get_timestamps a) \<and>
   (\<exists>r. get_pretty_date U (a\<lparr>content := Some []\<rparr>) = Inr r) \<and>
   (first_timestamp_match U a = None \<longrightarrow>
      get_pretty_date U (a\<lparr>content := Some []\<rparr>) = Inr []) \<and>
   simple_summary [] n = [] \<and>
   extract_deal_value_from_text U [] = NA \<and>
   ai_extract_deal_metadata U svc [] = (Inr all_na, []) \<and>
   all_na =
     \<lparr>deal_value = NA, deal_advisor = NA, investor_or_pe = NA, buyer = NA, seller = NA,
      buyer_lead_name = NA, buyer_lead_role = NA, investor_lead_name = NA,
      investor_lead_role = NA, seller_lead_name = NA, seller_lead_role = NA\<rparr> \<and>
   get_context_text U svc (a\<lparr>content := Some []\<rparr>) = (Inr [], []) \<and>
   get_context_text U svc (a\<lparr>content := None\<rparr>) = (Inr [], []) \<and>
   (get_pretty_date U (a\<lparr>content := Some []\<rparr>) = Inr [] \<longrightarrow>
      first_timestamp_match U a = None)"
proof -
  have ts: "get_timestamps (a\<lparr>content := Some []\<rparr>) = get_timestamps a"
    by (simp add: get_timestamps_def)
  have 1: "get_pretty_date U (a\<lparr>content := Some []\<rparr>) =
      extract_date_from_timestamp_list U (get_timestamps a)"
    using get_pretty_date_empty_content [of "a\<lparr>content := Some []\<rparr>" U]
    by (simp add: get_or_empty_def ts)
  have 2: "get_pretty_date U (a\<lparr>content := Some []\<rparr>) = Inr []"
    if "first_timestamp_match U a = None"
    using that by (simp add: get_pretty_date_eq get_or_empty_def date_content_empty)
  have 3: "get_context_text U svc (a\<lparr>content := Some []\<rparr>) = (Inr [], [])"
    by (rule get_context_text_empty) (simp add: get_or_empty_def)
  have 4: "get_context_text U svc (a\<lparr>content := None\<rparr>) = (Inr [], [])"
    by (rule get_context_text_empty) (simp add: get_or_empty_def)
  have 5: "first_timestamp_match U a = None"
    if "get_pretty_date U (a\<lparr>content := Some []\<rparr>) = Inr []"
  proof (cases "first_timestamp_match U a")
    case None
    then show ?thesis .
  next
    case (Some g)
    then have "first_timestamp_match U (a\<lparr>content := Some []\<rparr>) = Some g"
      by simp
    from first_timestamp_match_dated [OF this] that show ?thesis
      by simp
  qed
  from 1 2 3 4 5 show ?thesis
    using get_pretty_date_total [of U "a\<lparr>content := Some []\<rparr>"]
    by (simp add: date_content_empty simple_summary_empty deal_value_empty
        ai_extract_deal_metadata_def all_na_def)
qed

theorem empty_content_degradation_witness:
  "first_timestamp_match plain_db undated_article = None \<and>
   get_pretty_date plain_db (undated_article\<lparr>content := Some []\<rparr>) = Inr [] \<and>
   get_context_text plain_db failing_service (undated_article\<lparr>content := Some []\<rparr>) =
     (Inr [], [])"
proof -
  have "first_timestamp_match plain_db undated_article = None"
    by (simp add: first_timestamp_match_def undated_article_def date_eval)
  with empty_content_degradation [of plain_db undated_article _ failing_service]
  show ?thesis by blast
qed

lemma acme_pretty_date: "get_pretty_date U acme_article = Inr (asc ''Nov 26, 2025'')"
  by (simp add: acme_article_def date_eval)

lemma acme_no_marker:
  "py_find (asc ''/PRNewswire'') (collapse acme_content) = None \<and>
   strip_prnewswire_boilerplate acme_content = acme_content"
  by (simp add: acme_content_def summary_eval)

text \<open>
  C3, as stated: with a failing service the context of the scenario's article is the
  whole content, which starts with \<open>(PRNewswire) --\<close> and not with \<open>Acme Corp\<close>. The
  marker that \<open>strip_prnewswire_boilerplate\<close> looks for is \<open>/PRNewswire\<close>, with the
  slash, and it does not occur in this content.
\<close>

theorem acme_context_keeps_prefix:
  "get_context_text plain_db failing_service acme_article =
     (Inr (asc ''(PRNewswire) -- Acme Corp acquired Foo Inc for USD 240 million. Jane Doe, CEO of Acme, said the deal expands reach.''),
      [SummaryRequest (asc ''Nov 26, 2025'') acme_content]) \<and>
   py_find (asc ''/PRNewswire'') (collapse acme_content) = None \<and>
   strip_prnewswire_boilerplate acme_content = acme_content"
proof -
  have "get_context_text plain_db failing_service acme_article =
      (Inr acme_content, [SummaryRequest (asc ''Nov 26, 2025'') acme_content])"
    using acme_length
    by (auto simp: get_context_text_def acme_pretty_date acme_summary failing_service_def
        ai_summarise_with_ollama_def MAX_CHARS_FOR_AI_def Let_def)
       (simp_all add: acme_article_def get_or_empty_def acme_summary)
  then show ?thesis
    using acme_no_marker by (simp add: acme_content_def)
qed

text \<open>
  C3, amended. For the scenario's content and title, whatever the other fields of the
  article and whatever the Unicode tables: the extracted deal value is
  \<open>"USD 240 million"\<close>, also as the \<open>deal_value\<close> field of a record that
  \<open>ai_extract_deal_metadata\<close> returns; and when the generative call returns the empty
  string the context is the first two sentences of the content as they are, that is
  the whole content, boilerplate prefix included.
\<close>

theorem acme_scenario:
  assumes "\<And>d. fst (ai_summarise_with_ollama svc acme_content d) = []"
  shows "extract_deal_value_from_text U acme_content = asc ''USD 240 million'' \<and>
         (fst (ai_extract_deal_metadata U svc acme_content) = Inr dl \<longrightarrow>
            deal_value dl = asc ''USD 240 million'') \<and>
         fst (get_context_text U svc
           (a\<lparr>title := Some (asc ''Acme Acquires Foo''), content := Some acme_content\<rparr>)) =
           Inr acme_content \<and>
         two_sentences acme_content = acme_content"
proof -
  have "deal_value dl = asc ''USD 240 million''"
    if "fst (ai_extract_deal_metadata U svc acme_content) = Inr dl"
  proof -
    have "acme_content \<noteq> []"
      using acme_length by auto
    with that have "validated_deal U acme_content (metadata_proposal svc acme_content) = Inr dl"
      by (simp add: ai_extract_deal_metadata_def)
    then show ?thesis
      using validated_deal_value acme_value by simp
  qed
  moreover have "fst (get_context_text U svc
      (a\<lparr>title := Some (asc ''Acme Acquires Foo''), content := Some acme_content\<rparr>)) =
      Inr acme_content"
    using get_context_text_failing [OF assms, of U "a\<lparr>title := Some (asc ''Acme Acquires Foo'')\<rparr>"]
    by (simp add: acme_summary)
  ultimately show ?thesis
    by (simp add: acme_value acme_two)
qed

theorem acme_scenario_witness:
  "fst (ai_summarise_with_ollama failing_service acme_content []) = [] \<and>
   fst (ai_extract_deal_metadata plain_db failing_service acme_content) =
     Inr (all_na\<lparr>deal_value := asc ''USD 240 million''\<rparr>) \<and>
   fst (get_context_text plain_db failing_service acme_article) = Inr acme_content"
proof -
  have run: "fst (ai_extract_deal_metadata plain_db failing_service acme_content) =
      Inr (all_na\<lparr>deal_value := asc ''USD 240 million''\<rparr>)"
    using acme_length
    by (auto simp: ai_extract_deal_metadata_def metadata_proposal_def failing_service_def
        validated_deal_def then_clean_def clean_def data_get_def NA_def asc_def
        validate_org_def validate_person_def validate_role_def all_na_def py_strip_def
        isspace_def Let_def acme_value [unfolded asc_def])
  have art: "acme_article\<lparr>title := Some (asc ''Acme Acquires Foo''), content := Some acme_content\<rparr> =
      acme_article"
    by (simp add: acme_article_def)
  from acme_scenario [OF failing_summarise, of plain_db _ acme_article] run art
  show ?thesis
    by (simp add: failing_summarise)
qed

section \<open>The summary selector\<close>

lemma has_title_token_empty [simp]: "has_title_token U s [] = False"
  by (simp add: has_title_token_def py_split_def)

lemma summary_matches_title_iff:
  "summary_matches_title U s t = (s \<noteq> [] \<and> t \<noteq> [] \<and> has_title_token U s t)"
proof -
  have mf: "list_ex P (map f (filter Q xs)) = list_ex (\<lambda>w. Q w \<and> P (f w)) xs"
    for P :: "pystr \<Rightarrow> bool" and f Q and xs :: "pystr list"
    by (induction xs) auto
  have tok: "list_ex (\<lambda>t. py_in (py_lower U t) (py_lower U s)) (title_tokens t) =
      has_title_token U s t"
    unfolding title_tokens_def has_title_token_def by (rule mf)
  have "summary_matches_title U s t =
      (s \<noteq> [] \<and> t \<noteq> [] \<and> list_ex (\<lambda>t. py_in (py_lower U t) (py_lower U s)) (title_tokens t))"
    by (cases "title_tokens t") (simp_all add: summary_matches_title_def Let_def)
  then show ?thesis
    by (simp only: tok)
qed

lemma get_context_text_eq:
  "fst (get_context_text U svc a) =
     Inr (if generative_summary U svc a \<noteq> [] \<and>
             has_title_token U (generative_summary U svc a) (get_or_empty (title a))
          then generative_summary U svc a
          else simple_summary (get_or_empty (content a)) 400)"
proof -
  obtain d where d: "get_pretty_date U a = Inr d"
    using get_pretty_date_total by blast
  show ?thesis
  proof (cases "get_or_empty (content a) = []")
    case True
    then show ?thesis
      by (simp add: get_context_text_def generative_summary_def d ai_summarise_with_ollama_def)
  next
    case False
    obtain ai reqs where ai: "ai_summarise_with_ollama svc (get_or_empty (content a)) d = (ai, reqs)"
      by (cases "ai_summarise_with_ollama svc (get_or_empty (content a)) d")
    with False show ?thesis
      by (auto simp: get_context_text_def generative_summary_def d summary_matches_title_iff)
  qed
qed

text \<open>
  C5. The context is the generative summary when that summary is non-empty and contains
  (lower-cased, as a substring) a title token of length at least four after stripping
  the surrounding punctuation, and the deterministic summary of the same content
  otherwise; an empty generative summary or an empty title gives the deterministic
  summary. \<open>summary_matches_title\<close> is that token test together with the two
  emptiness tests.
\<close>

theorem summary_selection:
  "fst (get_context_text U svc a) =
     Inr (if generative_summary U svc a \<noteq> [] \<and>
             has_title_token U (generative_summary U svc a) (get_or_empty (title a))
          then generative_summary U svc a
          else simple_summary (get_or_empty (content a)) 400) \<and>
   (generative_summary U svc a = [] \<or> get_or_empty (title a) = [] \<longrightarrow>
      fst (get_context_text U svc a) = Inr (simple_summary (get_or_empty (content a)) 400)) \<and>
   summary_matches_title U s t = (s \<noteq> [] \<and> t \<noteq> [] \<and> has_title_token U s t)"
  using get_context_text_eq [of U svc a] summary_matches_title_iff [of U s t]
  by auto

theorem summary_selection_witness:
  "generative_summary plain_db chatty_service acme_article = asc ''ACME CORP bought a rival.'' \<and>
   fst (get_context_text plain_db chatty_service acme_article) =
     Inr (asc ''ACME CORP bought a rival.'') \<and>
   get_or_empty (title (acme_article\<lparr>title := None\<rparr>)) = [] \<and>
   fst (get_context_text plain_db chatty_service (acme_article\<lparr>title := None\<rparr>)) =
     Inr acme_content \<and>
   generative_summary plain_db failing_service acme_article = [] \<and>
   fst (get_context_text plain_db failing_service acme_article) = Inr acme_content"
proof -
  have ne: "acme_content \<noteq> []"
    using acme_length by auto
  have d: "get_pretty_date plain_db (acme_article\<lparr>title := None\<rparr>) = Inr (asc ''Nov 26, 2025'')"
    by (simp add: acme_article_def date_eval)
  have g1: "generative_summary plain_db chatty_service acme_article =
      asc ''ACME CORP bought a rival.''"
    using ne
    by (simp add: generative_summary_def acme_pretty_date ai_summarise_with_ollama_def
        chatty_service_def Let_def)
       (simp add: acme_article_def get_or_empty_def py_strip_def isspace_def asc_def)
  have g2: "generative_summary plain_db chatty_service (acme_article\<lparr>title := None\<rparr>) =
      asc ''ACME CORP bought a rival.''"
    using ne
    by (simp add: generative_summary_def d ai_summarise_with_ollama_def
        chatty_service_def Let_def)
       (simp add: acme_article_def get_or_empty_def py_strip_def isspace_def asc_def)
  have g3: "generative_summary plain_db failing_service acme_article = []"
    by (simp add: generative_summary_def acme_pretty_date failing_summarise)
  have tk: "has_title_token plain_db (asc ''ACME CORP bought a rival.'') (asc ''Acme Acquires Foo'')"
    by (simp add: has_title_token_def py_split_def py_strip_chars_def py_lower_def
        ascii_lower_def isspace_def asc_def)
  have c: "get_or_empty (content acme_article) = acme_content"
      "get_or_empty (title acme_article) = asc ''Acme Acquires Foo''"
    by (simp_all add: acme_article_def get_or_empty_def)
  have c': "get_or_empty (content (acme_article\<lparr>title := None\<rparr>)) = acme_content"
      "get_or_empty (title (acme_article\<lparr>title := None\<rparr>)) = []"
    by (simp_all add: acme_article_def get_or_empty_def)
  have nz: "asc ''ACME CORP bought a rival.'' \<noteq> []"
    by (simp add: asc_def)
  from summary_selection [of plain_db chatty_service acme_article]
       summary_selection [of plain_db chatty_service "acme_article\<lparr>title := None\<rparr>"]
       summary_selection [of plain_db failing_service acme_article]
       g1 g2 g3 tk c c' nz
  show ?thesis
    by (simp add: acme_summary)
qed

section \<open>The deal value extractor\<close>

lemma ci_prefix_split:
  "ci_prefix m s = Some r \<Longrightarrow>
     s = take (length m) s @ r \<and> length (take (length m) s) = length m \<and>
     list_all2 ci_match m (take (length m) s)"
proof (induction m arbitrary: s)
  case Nil
  then show ?case by simp
next
  case (Cons p ps)
  then obtain t s' where s: "s = t # s'" by (cases s) auto
  with Cons.prems have "ci_match p t" "ci_prefix ps s' = Some r"
    by (auto split: if_splits)
  with Cons.IH [of s'] s show ?case by simp
qed

lemma ci_prefix_matched:
  "list_all2 ci_match m tok \<Longrightarrow> ci_prefix m (tok @ x) = Some x"
  by (induction m tok rule: list_all2_induct) auto

lemma ci_match_space: "ci_match p t \<Longrightarrow> isspace t \<Longrightarrow> t = p"
  by (auto simp: ci_match_def isspace_def is_AZ_def is_az_def ascii_lower_def split: if_splits)

lemma ci_match_dollar: "ci_match p 36 \<Longrightarrow> p = 36"
  by (auto simp: ci_match_def is_AZ_def is_az_def ascii_lower_def split: if_splits)

lemma matched_clean:
  assumes "list_all2 ci_match m tok" "\<forall>p\<in>set m. \<not> isspace p \<and> p \<noteq> 36"
  shows "\<forall>t\<in>set tok. \<not> isspace t \<and> t \<noteq> 36"
  using assms
proof (induction m tok rule: list_all2_induct)
  case Nil
  then show ?case by simp
next
  case (Cons p ps t ts)
  then show ?case
    using ci_match_space ci_match_dollar by auto
qed

lemma deal_at_SomeD:
  "deal_at U ms s = Some (mk, amt) \<Longrightarrow>
     \<exists>m\<in>set ms. \<exists>r. ci_prefix m s = Some r \<and> mk = take (length m) s \<and> amount_at U r = Some amt"
  by (induction ms) (auto split: option.splits)

lemma search_deal_SomeD:
  "search_deal U s = Some (mk, amt) \<Longrightarrow>
     \<exists>s'. deal_at U currency_markers s' = Some (mk, amt)"
  by (induction s) (auto split: option.splits)


lemma matched_no_dollar:
  "list_all2 ci_match m x \<Longrightarrow> 36 \<notin> set m \<Longrightarrow> 36 \<notin> set x"
proof (induction m x rule: list_all2_induct)
  case Nil
  then show ?case by simp
next
  case (Cons p ps t ts)
  then show ?case using ci_match_dollar by auto
qed

lemma magnitude_at_no_dollar:
  "\<forall>m\<in>set ms. 36 \<notin> set m \<Longrightarrow> 36 \<notin> set (magnitude_at ms s)"
proof (induction ms)
  case Nil
  then show ?case by simp
next
  case (Cons m ms)
  show ?case
  proof (cases "ci_prefix m s")
    case None
    with Cons show ?thesis by simp
  next
    case (Some r)
    from ci_prefix_split [OF Some] have "list_all2 ci_match m (take (length m) s)" by blast
    with Cons.prems have "36 \<notin> set (take (length m) s)"
      using matched_no_dollar by auto
    with Some show ?thesis by simp
  qed
qed

lemma magnitudes_no_dollar: "\<forall>m\<in>set magnitudes. 36 \<notin> set m"
  by (simp add: magnitudes_def asc_def)

lemma digit_run_shape:
  "digit_run s \<noteq> [] \<Longrightarrow> \<exists>d tl. digit_run s = d # tl \<and> is_09 d \<and> 36 \<notin> set tl"
proof (cases s)
  case Nil
  then show "digit_run s \<noteq> [] \<Longrightarrow> ?thesis" by (simp add: digit_run_def)
next
  case (Cons c r)
  assume "digit_run s \<noteq> []"
  with Cons have c: "is_09 c" "digit_run s = c # takeWhile (\<lambda>c. is_09 c \<or> c = 44) r"
    by (auto simp: digit_run_def split: if_splits)
  have "36 \<notin> set (takeWhile (\<lambda>c. is_09 c \<or> c = 44) r)"
  proof
    assume "36 \<in> set (takeWhile (\<lambda>c. is_09 c \<or> c = 44) r)"
    then have "is_09 36 \<or> (36::nat) = 44" by (rule set_takeWhileD [THEN conjunct2])
    then show False by (simp add: is_09_def)
  qed
  with c show ?thesis by blast
qed

lemma amount_at_shape:
  assumes "amount_at U r = Some amt"
  shows "\<exists>ws d tl. amt = ws @ d # tl \<and> list_all isspace ws \<and> is_09 d \<and> 36 \<notin> set tl"
proof -
  define ws1 where "ws1 = takeWhile isspace r"
  define s1 where "s1 = drop (length ws1) r"
  define num where "num = digit_run s1"
  define s2 where "s2 = drop (length num) s1"
  define digits where "digits = takeWhile (isdecimal U) (tl s2)"
  define frac where "frac = (if starts_with 46 s2 \<and> digits \<noteq> [] then 46 # digits else [])"
  define s3 where "s3 = drop (length frac) s2"
  define ws2 where "ws2 = takeWhile isspace s3"
  define s4 where "s4 = drop (length ws2) s3"
  have eq: "amount_at U r =
      (if num = [] then None else Some (ws1 @ num @ frac @ ws2 @ magnitude_at magnitudes s4))"
    unfolding amount_at_def Let_def ws1_def s1_def num_def s2_def digits_def frac_def s3_def
      ws2_def s4_def ..
  with assms have num: "num \<noteq> []"
    and amt: "amt = ws1 @ num @ frac @ ws2 @ magnitude_at magnitudes s4"
    by (auto split: if_splits)
  from num obtain d t where d: "num = d # t" "is_09 d" "36 \<notin> set t"
    using digit_run_shape unfolding num_def by blast
  have ws1: "list_all isspace ws1"
    unfolding ws1_def list_all_iff using set_takeWhileD by metis
  have "36 \<notin> set digits"
  proof
    assume "36 \<in> set digits"
    then have "isdecimal U 36" unfolding digits_def by (rule set_takeWhileD [THEN conjunct2])
    then show False by (simp add: isdecimal_def py_decimal_def)
  qed
  then have frac: "36 \<notin> set frac"
    by (simp add: frac_def)
  have ws2: "36 \<notin> set ws2"
  proof
    assume "36 \<in> set ws2"
    then have "isspace 36" unfolding ws2_def by (rule set_takeWhileD [THEN conjunct2])
    then show False by (simp add: isspace_def)
  qed
  have "36 \<notin> set (magnitude_at magnitudes s4)"
    using magnitude_at_no_dollar magnitudes_no_dollar by blast
  with d frac ws2 have "36 \<notin> set (t @ frac @ ws2 @ magnitude_at magnitudes s4)"
    by simp
  moreover have "amt = ws1 @ d # (t @ frac @ ws2 @ magnitude_at magnitudes s4)"
    using amt d by simp
  ultimately show ?thesis
    using ws1 d by blast
qed


lemma rstrip_keep:
  assumes "\<not> isspace d"
  shows "\<exists>tail'. rev (dropWhile isspace (rev (pre @ d # tail))) = pre @ d # tail' \<and> set tail' \<subseteq> set tail"
proof (cases "\<forall>x\<in>set (rev tail). isspace x")
  case True
  with assms have "rev (dropWhile isspace (rev (pre @ d # tail))) = pre @ d # []"
    by (simp add: dropWhile_append)
  then show ?thesis by (intro exI [of _ "[]"]) simp
next
  case False
  with assms have "rev (dropWhile isspace (rev (pre @ d # tail))) =
      pre @ d # rev (dropWhile isspace (rev tail))"
    by (simp add: dropWhile_append)
  moreover have "set (rev (dropWhile isspace (rev tail))) \<subseteq> set tail"
    using set_dropWhileD by fastforce
  ultimately show ?thesis
    by (intro exI [of _ "rev (dropWhile isspace (rev tail))"]) simp
qed

lemma py_strip_keep:
  assumes "pre \<noteq> []" "\<not> isspace (hd pre)" "\<not> isspace d"
  shows "\<exists>tail'. py_strip (pre @ d # tail) = pre @ d # tail' \<and> set tail' \<subseteq> set tail"
proof -
  from assms obtain a x where "pre = a # x" "\<not> isspace a"
    by (cases pre) auto
  then have "dropWhile isspace (pre @ d # tail) = pre @ d # tail"
    by simp
  then show ?thesis
    using rstrip_keep [OF assms(3)] by (simp add: py_strip_def)
qed

lemma replace_absent:
  "36 \<in> set old \<Longrightarrow> 36 \<notin> set s \<Longrightarrow> py_replace old new s = s"
proof (induction s)
  case Nil
  then show ?case by simp
next
  case (Cons c s)
  have "\<not> prefix old (c # s)"
  proof
    assume "prefix old (c # s)"
    then have "set old \<subseteq> set (c # s)" by (rule set_mono_prefix)
    with Cons.prems show False by blast
  qed
  with Cons show ?case by simp
qed

lemma sub_ws_nonspace:
  "\<forall>t\<in>set tok. \<not> isspace t \<Longrightarrow> sub_ws False (tok @ s) = tok @ sub_ws False s"
  by (induction tok) auto

lemma sub_ws_run_True:
  "list_all isspace ws \<Longrightarrow> \<not> isspace d \<Longrightarrow> sub_ws True (ws @ d # s) = d # sub_ws False s"
  by (induction ws) auto

lemma sub_ws_run:
  "list_all isspace ws \<Longrightarrow> \<not> isspace d \<Longrightarrow>
     sub_ws False (ws @ d # s) = (if ws = [] then [] else [32]) @ d # sub_ws False s"
  by (cases ws) (auto simp: sub_ws_run_True)

lemma is_09_plain: "is_09 d \<Longrightarrow> \<not> isspace d \<and> d \<noteq> 36"
  by (auto simp: is_09_def isspace_def)

lemma collapse_keep:
  assumes "tok \<noteq> []" "\<forall>t\<in>set tok. \<not> isspace t" "list_all isspace ws" "\<not> isspace d"
  shows "\<exists>sp X. py_strip (re_sub_ws (tok @ ws @ d # tail)) = tok @ sp @ d # X \<and>
           (sp = [] \<or> sp = [32]) \<and> (ws \<noteq> [] \<longrightarrow> sp = [32])"
proof -
  define sp where "sp = (if ws = [] then [] else [32::nat])"
  have sp: "(sp = [] \<or> sp = [32]) \<and> (ws \<noteq> [] \<longrightarrow> sp = [32])"
    by (simp add: sp_def)
  have "re_sub_ws (tok @ ws @ d # tail) = (tok @ sp) @ d # sub_ws False tail"
    using assms by (simp add: re_sub_ws_def sub_ws_nonspace sub_ws_run sp_def)
  moreover have "tok @ sp \<noteq> []" "\<not> isspace (hd (tok @ sp))"
    using assms by (cases tok; simp)+
  ultimately obtain X where "py_strip (re_sub_ws (tok @ ws @ d # tail)) = (tok @ sp) @ d # X"
    using py_strip_keep [of "tok @ sp" d "sub_ws False tail"] assms(4) by auto
  with sp show ?thesis by auto
qed

lemma normalize_clean:
  assumes "tok \<noteq> []" "\<forall>t\<in>set tok. \<not> isspace t \<and> t \<noteq> 36" "list_all isspace ws"
    "is_09 d" "36 \<notin> set tail"
  shows "\<exists>sp X. normalize_value (tok @ ws @ d # tail) = tok @ sp @ d # X \<and>
           (sp = [] \<or> sp = [32])"
proof -
  have d: "\<not> isspace d" "d \<noteq> 36" using is_09_plain [OF assms(4)] by simp_all
  have ws: "36 \<notin> set ws"
    using assms(3) by (auto simp: list_all_iff isspace_def)
  have "tok @ ws \<noteq> []" "\<not> isspace (hd (tok @ ws))"
    using assms(1,2) by (cases tok; simp)+
  then obtain tail' where s: "py_strip ((tok @ ws) @ d # tail) = (tok @ ws) @ d # tail'"
    "set tail' \<subseteq> set tail"
    using py_strip_keep [of "tok @ ws" d tail] d by blast
  with assms ws d have no: "36 \<notin> set (tok @ ws @ d # tail')" by auto
  have "normalize_value (tok @ ws @ d # tail) = py_strip (re_sub_ws (tok @ ws @ d # tail'))"
    using s(1) no by (simp add: normalize_value_def Let_def replace_absent asc_def)
  then show ?thesis
    using collapse_keep [of tok ws d tail'] assms d by metis
qed

lemma normalize_dollar:
  assumes "mk = [36] \<or> mk = asc ''US$''" "list_all isspace ws" "is_09 d" "36 \<notin> set tail"
  shows "\<exists>X. normalize_value (mk @ ws @ d # tail) = asc ''USD'' @ [32] @ d # X"
proof -
  have d: "\<not> isspace d" "d \<noteq> 36" using is_09_plain [OF assms(3)] by simp_all
  have ws: "36 \<notin> set ws"
    using assms(2) by (auto simp: list_all_iff isspace_def)
  have "mk @ ws \<noteq> []" "\<not> isspace (hd (mk @ ws))"
    using assms(1) by (auto simp: asc_def isspace_def)
  then obtain tail' where s: "py_strip ((mk @ ws) @ d # tail) = (mk @ ws) @ d # tail'"
    "set tail' \<subseteq> set tail"
    using py_strip_keep [of "mk @ ws" d tail] d by blast
  with assms ws d have no: "36 \<notin> set (ws @ d # tail')" by auto
  have r1: "py_replace (asc ''$'') (asc ''USD '')
      (py_replace (asc ''US$'') (asc ''USD '') (mk @ ws @ d # tail')) = asc ''USD '' @ ws @ d # tail'"
    using assms(1) no by (auto simp: asc_def replace_absent)
  have "asc ''USD '' @ ws @ d # tail' = asc ''USD'' @ (32 # ws) @ d # tail'"
    by (simp add: asc_def)
  with r1 s(1) have "normalize_value (mk @ ws @ d # tail) =
      py_strip (re_sub_ws (asc ''USD'' @ (32 # ws) @ d # tail'))"
    by (simp add: normalize_value_def Let_def)
  moreover have "list_all isspace (32 # ws)" "\<forall>t\<in>set (asc ''USD''). \<not> isspace t" "asc ''USD'' \<noteq> []"
    using assms(2) by (simp_all add: isspace_def asc_def)
  ultimately show ?thesis
    using collapse_keep [of "asc ''USD''" "32 # ws" d tail'] d
    by (metis list.distinct(1))
qed


lemma marked_amountI:
  assumes "m \<in> set ascii_markers" "list_all2 ci_match m tok" "is_09 d" "sp = [] \<or> sp = [32]"
  shows "marked_amount (tok @ sp @ d # X)"
proof -
  have "ci_prefix m (tok @ sp @ d # X) = Some (sp @ d # X)"
    using assms(2) by (rule ci_prefix_matched)
  moreover have "amount_follows (sp @ d # X)"
    using assms(3,4) by (auto simp: amount_follows_def)
  ultimately have "case ci_prefix m (tok @ sp @ d # X) of None \<Rightarrow> False
      | Some rest \<Rightarrow> amount_follows rest"
    by simp
  with assms(1) show ?thesis
    unfolding marked_amount_def list_ex_iff by blast
qed

lemma ascii_markers_clean:
  "m \<in> set ascii_markers \<Longrightarrow> m \<noteq> [] \<and> (\<forall>p\<in>set m. \<not> isspace p \<and> p \<noteq> 36)"
  by (auto simp: ascii_markers_def asc_def isspace_def)

lemma currency_markers_cases:
  "m \<in> set currency_markers \<Longrightarrow>
     m \<in> set ascii_markers \<or> m = [36] \<or> m = asc ''US$'' \<or>
     m = asc ''C$'' \<or> m = [8218, 199, 168] \<or> m = [172, 163]"
  by (auto simp: currency_markers_def ascii_markers_def asc_def)

lemma matched_value_shape:
  assumes m: "m \<in> set currency_markers" and mk: "list_all2 ci_match m mk"
    and ws: "list_all isspace ws" and d: "is_09 d" and tail: "36 \<notin> set tail"
  shows "marked_amount (normalize_value (mk @ ws @ d # tail)) \<or> slip_marker mk"
proof -
  have self: "ci_prefix m mk = Some []"
    using ci_prefix_matched [OF mk, of "[]"] by simp
  have len: "length mk = length m"
    using mk by (rule list_all2_lengthD [symmetric])
  from currency_markers_cases [OF m] consider
      (plain) "m \<in> set ascii_markers" | (dollar) "m = [36]" | (us) "m = asc ''US$''"
    | (slip) "m = asc ''C$'' \<or> m = [8218, 199, 168] \<or> m = [172, 163]"
    by blast
  then show ?thesis
  proof cases
    case plain
    from ascii_markers_clean [OF plain] mk len
    have "mk \<noteq> []" "\<forall>t\<in>set mk. \<not> isspace t \<and> t \<noteq> 36"
      using matched_clean by auto
    from normalize_clean [OF this ws d tail] obtain sp X where
      "normalize_value (mk @ ws @ d # tail) = mk @ sp @ d # X" "sp = [] \<or> sp = [32]"
      by blast
    then show ?thesis
      using marked_amountI [OF plain mk d] by simp
  next
    case dollar
    with mk have "mk = [36]"
      by (auto simp: list_all2_Cons1 ci_match_def is_AZ_def is_az_def)
    from normalize_dollar [OF disjI1 [OF this] ws d tail] obtain X where
      X: "normalize_value (mk @ ws @ d # tail) = asc ''USD'' @ [32] @ d # X"
      by blast
    have "asc ''USD'' \<in> set ascii_markers" "list_all2 ci_match (asc ''USD'') (asc ''USD'')"
      by (simp_all add: ascii_markers_def asc_def ci_match_def)
    from marked_amountI [OF this d, of "[32]" X] X show ?thesis
      by simp
  next
    case us
    show ?thesis
    proof (cases "mk = asc ''US$''")
      case True
      from normalize_dollar [OF disjI2 [OF True] ws d tail] obtain X where
        X: "normalize_value (mk @ ws @ d # tail) = asc ''USD'' @ [32] @ d # X"
        by blast
      have "asc ''USD'' \<in> set ascii_markers" "list_all2 ci_match (asc ''USD'') (asc ''USD'')"
        by (simp_all add: ascii_markers_def asc_def ci_match_def)
      from marked_amountI [OF this d, of "[32]" X] X show ?thesis
        by simp
    next
      case False
      with self us show ?thesis
        by (simp add: slip_marker_def)
    qed
  next
    case slip
    have "mk \<noteq> asc ''US$''"
    proof
      assume "mk = asc ''US$''"
      with slip mk show False
        by (auto simp: asc_def ci_match_def is_AZ_def is_az_def)
    qed
    with self slip show ?thesis
      by (auto simp: slip_marker_def)
  qed
qed

lemma rstrip_exact:
  assumes "\<not> isspace d"
  shows "rev (dropWhile isspace (rev (pre @ d # tail))) =
         pre @ d # rev (dropWhile isspace (rev tail))"
proof (cases "\<forall>x\<in>set (rev tail). isspace x")
  case True
  then have "dropWhile isspace (rev tail) = []" by simp
  with True assms show ?thesis
    by (simp add: dropWhile_append)
next
  case False
  with assms show ?thesis
    by (simp add: dropWhile_append)
qed

lemma py_strip_exact:
  assumes "list_all isspace ws" "\<forall>t\<in>set tok. \<not> isspace t" "\<not> isspace d"
  shows "py_strip (tok @ ws @ d # tail) =
         (if tok = [] then [] else tok @ ws) @ d # rev (dropWhile isspace (rev tail))"
proof (cases tok)
  case Nil
  from assms(1,3) have "dropWhile isspace (ws @ d # tail) = d # tail"
    by (induction ws) auto
  with Nil show ?thesis
    using rstrip_exact [OF assms(3), of "[]" tail] by (simp add: py_strip_def)
next
  case (Cons a x)
  with assms(2) have "dropWhile isspace (tok @ ws @ d # tail) = tok @ ws @ d # tail"
    by simp
  with Cons show ?thesis
    using rstrip_exact [OF assms(3), of "tok @ ws" tail] by (simp add: py_strip_def)
qed

lemma rstrip_subset: "set (rev (dropWhile isspace (rev tail))) \<subseteq> set tail"
  using set_dropWhileD by fastforce

lemma amount_text_eq:
  assumes "list_all isspace ws" "\<not> isspace d"
  shows "amount_text (ws @ d # tail) =
         d # rev (dropWhile isspace (rev (sub_ws False (rev (dropWhile isspace (rev tail))))))"
proof -
  have "py_strip (ws @ d # tail) = d # rev (dropWhile isspace (rev tail))"
    using py_strip_exact [OF assms(1) _ assms(2), of "[]" tail] by simp
  moreover have "re_sub_ws (d # x) = d # sub_ws False x" for x
    using assms(2) by (simp add: re_sub_ws_def)
  moreover have "py_strip (d # y) = d # rev (dropWhile isspace (rev y))" for y
    using py_strip_exact [of "[]" "[]" d y] assms(2) by simp
  ultimately show ?thesis
    by (simp add: amount_text_def)
qed

lemma gap_eq:
  assumes "list_all isspace ws" "\<not> isspace d"
  shows "gap (ws @ d # tail) = (if ws = [] then [] else [32])"
  using assms by (cases ws) (auto simp: gap_def)

lemma normalize_plain_eq:
  assumes "tok \<noteq> []" "\<forall>t\<in>set tok. \<not> isspace t \<and> t \<noteq> 36" "list_all isspace ws"
    "is_09 d" "36 \<notin> set tail"
  shows "normalize_value (tok @ ws @ d # tail) =
         tok @ gap (ws @ d # tail) @ amount_text (ws @ d # tail)"
proof -
  have d: "\<not> isspace d" "d \<noteq> 36" using is_09_plain [OF assms(4)] by simp_all
  have ws: "36 \<notin> set ws"
    using assms(3) by (auto simp: list_all_iff isspace_def)
  define T where "T = rev (dropWhile isspace (rev tail))"
  have T: "36 \<notin> set T"
    using rstrip_subset [of tail] assms(5) unfolding T_def by blast
  have s: "py_strip (tok @ ws @ d # tail) = tok @ ws @ d # T"
    using py_strip_exact [OF assms(3) _ d(1), of tok tail] assms(1,2) by (simp add: T_def)
  have no: "36 \<notin> set (tok @ ws @ d # T)"
    using assms(2) ws d T by auto
  define sp where "sp = (if ws = [] then [] else [32::nat])"
  have sp: "list_all isspace sp"
    by (simp add: sp_def isspace_def)
  have "normalize_value (tok @ ws @ d # tail) = py_strip (re_sub_ws (tok @ ws @ d # T))"
    using s no by (simp add: normalize_value_def Let_def replace_absent asc_def)
  also have "re_sub_ws (tok @ ws @ d # T) = tok @ sp @ d # sub_ws False T"
    using assms(2,3) d(1) by (simp add: re_sub_ws_def sub_ws_nonspace sub_ws_run sp_def)
  also have "py_strip (tok @ sp @ d # sub_ws False T) =
      tok @ sp @ d # rev (dropWhile isspace (rev (sub_ws False T)))"
    using py_strip_exact [OF sp _ d(1), of tok "sub_ws False T"] assms(1,2) by simp
  finally show ?thesis
    using assms(3) d(1) by (simp add: gap_eq amount_text_eq sp_def T_def)
qed

lemma normalize_dollar_eq:
  assumes "mk = [36] \<or> mk = asc ''US$''" "list_all isspace ws" "is_09 d" "36 \<notin> set tail"
  shows "normalize_value (mk @ ws @ d # tail) = asc ''USD '' @ amount_text (ws @ d # tail)"
proof -
  have d: "\<not> isspace d" "d \<noteq> 36" using is_09_plain [OF assms(3)] by simp_all
  have ws: "36 \<notin> set ws"
    using assms(2) by (auto simp: list_all_iff isspace_def)
  define T where "T = rev (dropWhile isspace (rev tail))"
  have T: "36 \<notin> set T"
    using rstrip_subset [of tail] assms(4) unfolding T_def by blast
  have mk: "mk \<noteq> []" "\<forall>t\<in>set mk. \<not> isspace t"
    using assms(1) by (auto simp: asc_def isspace_def)
  have s: "py_strip (mk @ ws @ d # tail) = mk @ ws @ d # T"
    using py_strip_exact [OF assms(2) mk(2) d(1), of tail] mk(1) by (simp add: T_def)
  have no: "36 \<notin> set (ws @ d # T)"
    using ws d T by auto
  have r1: "py_replace (asc ''$'') (asc ''USD '')
      (py_replace (asc ''US$'') (asc ''USD '') (mk @ ws @ d # T)) = asc ''USD '' @ ws @ d # T"
    using assms(1) no by (auto simp: asc_def replace_absent)
  have u: "asc ''USD '' @ ws @ d # T = asc ''USD'' @ (32 # ws) @ d # T"
    by (simp add: asc_def)
  have usd: "\<forall>t\<in>set (asc ''USD''). \<not> isspace t" "asc ''USD'' \<noteq> []"
    by (simp_all add: isspace_def asc_def)
  have sp: "list_all isspace [32]" "list_all isspace (32 # ws)"
    using assms(2) by (simp_all add: isspace_def)
  have "normalize_value (mk @ ws @ d # tail) = py_strip (re_sub_ws (asc ''USD'' @ (32 # ws) @ d # T))"
    using s r1 u by (simp add: normalize_value_def Let_def)
  also have "re_sub_ws (asc ''USD'' @ (32 # ws) @ d # T) = asc ''USD'' @ [32] @ d # sub_ws False T"
    using usd(1) sp(2) d(1) sub_ws_run [of "32 # ws" d T]
    by (simp add: re_sub_ws_def sub_ws_nonspace)
  also have "py_strip (asc ''USD'' @ [32] @ d # sub_ws False T) =
      asc ''USD'' @ [32] @ d # rev (dropWhile isspace (rev (sub_ws False T)))"
    using py_strip_exact [OF sp(1) usd(1) d(1), of "sub_ws False T"] usd(2) by simp
  finally show ?thesis
    using assms(2) d(1) by (simp add: amount_text_eq T_def asc_def)
qed


lemma prefix_step:
  assumes "prefix a s" "prefix b (drop (length a) s)"
  shows "prefix (a @ b) s"
proof -
  from assms(1) obtain x where s: "s = a @ x" by (auto simp: prefix_def)
  with assms(2) show ?thesis by simp
qed

lemma digit_run_prefix: "prefix (digit_run s) s"
  by (cases s) (auto simp: digit_run_def takeWhile_is_prefix)

lemma magnitude_at_prefix: "prefix (magnitude_at ms s) s"
  by (induction ms) (auto simp: take_is_prefix split: option.splits)

lemma amount_at_prefix:
  assumes "amount_at U r = Some amt"
  shows "prefix amt r"
proof -
  define ws1 where "ws1 = takeWhile isspace r"
  define s1 where "s1 = drop (length ws1) r"
  define num where "num = digit_run s1"
  define s2 where "s2 = drop (length num) s1"
  define digits where "digits = takeWhile (isdecimal U) (tl s2)"
  define frac where "frac = (if starts_with 46 s2 \<and> digits \<noteq> [] then 46 # digits else [])"
  define s3 where "s3 = drop (length frac) s2"
  define ws2 where "ws2 = takeWhile isspace s3"
  define s4 where "s4 = drop (length ws2) s3"
  have eq: "amount_at U r =
      (if num = [] then None else Some (ws1 @ num @ frac @ ws2 @ magnitude_at magnitudes s4))"
    unfolding amount_at_def Let_def ws1_def s1_def num_def s2_def digits_def frac_def s3_def
      ws2_def s4_def ..
  with assms have amt: "amt = ws1 @ num @ frac @ ws2 @ magnitude_at magnitudes s4"
    by (auto split: if_splits)
  have p1: "prefix ws1 r"
    unfolding ws1_def by (rule takeWhile_is_prefix)
  have p2: "prefix num s1"
    unfolding num_def by (rule digit_run_prefix)
  have p3: "prefix frac s2"
  proof (cases "starts_with 46 s2 \<and> digits \<noteq> []")
    case True
    then obtain t where "s2 = 46 # t"
      by (cases s2) (auto simp: starts_with_def)
    with True show ?thesis
      by (simp add: frac_def digits_def takeWhile_is_prefix)
  next
    case False
    then have "frac = []" unfolding frac_def by (rule if_not_P)
    then show ?thesis by simp
  qed
  have p4: "prefix ws2 s3"
    unfolding ws2_def by (rule takeWhile_is_prefix)
  have p5: "prefix (magnitude_at magnitudes s4) s4"
    by (rule magnitude_at_prefix)
  have "prefix (ws2 @ magnitude_at magnitudes s4) s3"
    using p4 p5 unfolding s4_def by (rule prefix_step)
  with p3 have "prefix (frac @ ws2 @ magnitude_at magnitudes s4) s2"
    unfolding s3_def by (rule prefix_step)
  with p2 have "prefix (num @ frac @ ws2 @ magnitude_at magnitudes s4) s1"
    unfolding s2_def by (rule prefix_step)
  with p1 have "prefix (ws1 @ num @ frac @ ws2 @ magnitude_at magnitudes s4) r"
    unfolding s1_def by (rule prefix_step)
  with amt show ?thesis by simp
qed

lemma search_deal_leftmost:
  "search_deal U s = Some g \<Longrightarrow>
     \<exists>pre rest. s = pre @ rest \<and> deal_at U currency_markers rest = Some g \<and>
       (\<forall>i<length pre. deal_at U currency_markers (drop i s) = None)"
proof (induction s)
  case Nil
  then show ?case by simp
next
  case (Cons c s)
  show ?case
  proof (cases "deal_at U currency_markers (c # s)")
    case (Some g')
    with Cons.prems have "g' = g" by simp
    with Some have "c # s = [] @ (c # s) \<and> deal_at U currency_markers (c # s) = Some g \<and>
        (\<forall>i<length ([]::pystr). deal_at U currency_markers (drop i (c # s)) = None)"
      by simp
    then show ?thesis by blast
  next
    case None
    with Cons.prems have "search_deal U s = Some g" by simp
    from Cons.IH [OF this] obtain pre rest where IH: "s = pre @ rest"
      "deal_at U currency_markers rest = Some g"
      "\<forall>i<length pre. deal_at U currency_markers (drop i s) = None"
      by blast
    have "deal_at U currency_markers (drop i (c # s)) = None" if "i < length (c # pre)" for i
    proof (cases i)
      case 0
      with None show ?thesis by simp
    next
      case (Suc j)
      with that IH(3) show ?thesis by simp
    qed
    with IH(1,2) have "c # s = (c # pre) @ rest \<and> deal_at U currency_markers rest = Some g \<and>
        (\<forall>i<length (c # pre). deal_at U currency_markers (drop i (c # s)) = None)"
      by simp
    then show ?thesis by blast
  qed
qed

lemma plain_marker_clean:
  assumes "plain_marker mk"
  shows "mk \<noteq> [] \<and> (\<forall>t\<in>set mk. \<not> isspace t \<and> t \<noteq> 36)"
proof -
  from assms obtain m where m: "m \<in> set ascii_markers" "ci_prefix m mk = Some []"
    by (auto simp: plain_marker_def list_ex_iff)
  from ci_prefix_split [OF m(2)] have a: "mk = take (length m) mk @ []"
    and b: "list_all2 ci_match m (take (length m) mk)"
    by blast+
  from a have "take (length m) mk = mk"
    by simp
  with b have mk: "list_all2 ci_match m mk"
    by simp
  from ascii_markers_clean [OF m(1)] have cl: "m \<noteq> []" "\<forall>p\<in>set m. \<not> isspace p \<and> p \<noteq> 36"
    by blast+
  from mk have "length m = length mk"
    by (rule list_all2_lengthD)
  with cl(1) have "mk \<noteq> []"
    by auto
  moreover have "\<forall>t\<in>set mk. \<not> isspace t \<and> t \<noteq> 36"
    using mk cl(2) by (rule matched_clean)
  ultimately show ?thesis
    by blast
qed

lemma match_located:
  assumes "search_deal U s = Some (mk, amt)"
  shows "(\<exists>pre post. s = pre @ mk @ amt @ post \<and>
            (\<forall>i<length pre. deal_at U currency_markers (drop i s) = None)) \<and>
         list_ex (\<lambda>m. ci_prefix m mk = Some []) currency_markers \<and>
         (\<exists>ws d tail. amt = ws @ d # tail \<and> list_all isspace ws \<and> is_09 d \<and> 36 \<notin> set tail)"
proof -
  from search_deal_leftmost [OF assms] obtain pre rest where s: "s = pre @ rest"
    "deal_at U currency_markers rest = Some (mk, amt)"
    "\<forall>i<length pre. deal_at U currency_markers (drop i s) = None"
    by blast
  from deal_at_SomeD [OF s(2)] obtain m r where m: "m \<in> set currency_markers"
    and r: "ci_prefix m rest = Some r" "mk = take (length m) rest" "amount_at U r = Some amt"
    by blast
  from ci_prefix_split [OF r(1)] r(2) have mk: "rest = mk @ r" "list_all2 ci_match m mk"
    by simp_all
  from amount_at_prefix [OF r(3)] obtain post where "r = amt @ post"
    by (auto simp: prefix_def)
  with mk(1) s(1) have "s = pre @ mk @ amt @ post" by simp
  moreover have "ci_prefix m mk = Some []"
    using ci_prefix_matched [OF mk(2), of "[]"] by simp
  with m have "list_ex (\<lambda>m. ci_prefix m mk = Some []) currency_markers"
    unfolding list_ex_iff by blast
  ultimately show ?thesis
    using s(3) amount_at_shape [OF r(3)] by blast
qed


lemma deal_value_marked:
  "extract_deal_value_from_text U c = NA \<or>
   marked_amount (extract_deal_value_from_text U c) \<or>
   (case search_deal U (collapse c) of None \<Rightarrow> False | Some (mk, amt) \<Rightarrow> slip_marker mk)"
proof (cases "c = [] \<or> search_deal U (collapse c) = None")
  case True
  then show ?thesis
    by (auto simp: extract_deal_value_from_text_def)
next
  case False
  then obtain mk amt where found: "search_deal U (collapse c) = Some (mk, amt)" and c: "c \<noteq> []"
    by auto
  from search_deal_SomeD [OF found] obtain s' where "deal_at U currency_markers s' = Some (mk, amt)"
    by blast
  from deal_at_SomeD [OF this] obtain m r where m: "m \<in> set currency_markers"
    and r: "ci_prefix m s' = Some r" "mk = take (length m) s'" "amount_at U r = Some amt"
    by blast
  from ci_prefix_split [OF r(1)] r(2) have mk: "list_all2 ci_match m mk"
    by simp
  from amount_at_shape [OF r(3)] obtain ws d tail where
    amt: "amt = ws @ d # tail" "list_all isspace ws" "is_09 d" "36 \<notin> set tail"
    by blast
  from matched_value_shape [OF m mk amt(2,3,4)] found c amt(1) show ?thesis
    by (auto simp: extract_deal_value_from_text_def)
qed

lemma marker_kinds:
  assumes "list_ex (\<lambda>m. ci_prefix m mk = Some []) currency_markers"
  shows "plain_marker mk \<or> mk = [36] \<or> mk = asc ''US$'' \<or> slip_marker mk"
proof -
  from assms obtain m where m: "m \<in> set currency_markers" "ci_prefix m mk = Some []"
    by (auto simp: list_ex_iff)
  from currency_markers_cases [OF m(1)] consider
      (plain) "m \<in> set ascii_markers" | (dollar) "m = [36]" | (us) "m = asc ''US$''"
    | (slip) "m = asc ''C$'' \<or> m = [8218, 199, 168] \<or> m = [172, 163]"
    by blast
  then show ?thesis
  proof cases
    case plain
    with m(2) show ?thesis
      unfolding plain_marker_def list_ex_iff by blast
  next
    case dollar
    with m(2) have "mk = [36]"
      by (cases mk) (auto simp: ci_match_def is_AZ_def is_az_def split: if_splits list.splits)
    then show ?thesis by simp
  next
    case us
    with m(2) show ?thesis
      by (cases "mk = asc ''US$''") (simp_all add: slip_marker_def)
  next
    case slip
    have "mk \<noteq> asc ''US$''"
    proof
      assume "mk = asc ''US$''"
      with slip m(2) show False
        by (auto simp: asc_def ci_match_def is_AZ_def is_az_def ascii_lower_def)
    qed
    with m(2) slip show ?thesis
      by (auto simp: slip_marker_def)
  qed
qed

lemma marked_amount_examples:
  "marked_amount (asc ''USD 240 million'') \<and> marked_amount (asc ''eur5,000'') \<and>
   \<not> marked_amount (asc ''240 million'') \<and> \<not> marked_amount (asc ''USD million'') \<and>
   slip_marker (asc ''C$'') \<and> slip_marker (asc ''us$'') \<and> \<not> slip_marker (asc ''US$'') \<and>
   \<not> slip_marker (asc ''USD'')"
  by (simp add: marked_amount_def ascii_markers_def amount_follows_def slip_marker_def
      ci_match_def is_AZ_def is_az_def ascii_lower_def is_09_def asc_def)

text \<open>
  C2, as stated, at a content that writes the currency in lower case: the value
  returned is not the sentinel and begins with none of the listed tokens. The same
  happens for \<open>Rs\<close> written without the dot.
\<close>

theorem lower_case_currency_returned:
  "extract_deal_value_from_text plain_db (asc ''valued at usd 5 million in cash'') =
     asc ''usd 5 million'' \<and>
   \<not> begins_with_known_token (asc ''usd 5 million'') \<and>
   extract_deal_value_from_text plain_db (asc ''for Rs 500 crore'') = asc ''Rs 500'' \<and>
   \<not> begins_with_known_token (asc ''Rs 500'')"
  by (simp add: deal_eval begins_with_known_token_def known_currency_tokens_def)

text \<open>
  C2, amended. The value returned is the sentinel \<open>"NA"\<close> when the content is empty
  or the pattern has no match. Otherwise take the leftmost match of the pattern in the
  whitespace-collapsed content; its currency part is a case-insensitive match of one of
  the pattern's alternatives and its amount starts with an ASCII digit. When the
  currency part is a letter-case variant of \<open>USD\<close>, \<open>EUR\<close>, \<open>GBP\<close>, \<open>CAD\<close>,
  \<open>INR\<close>, \<open>Rs.\<close> or \<open>Rs\<close>, the value is that part in the letter case of the
  text, then one space if whitespace follows it in the text, then the amount. When the
  currency part is \<open>$\<close> or \<open>US$\<close>, the value is \<open>"USD "\<close> followed by the
  amount. In both cases the value begins with a marker followed by a digit or by one
  space and a digit, so it is never a bare number. For a match of \<open>C$\<close>, of \<open>US$\<close>
  in another letter case or of one of the pattern's two non-ASCII alternatives nothing
  is stated about the value. A letter-case variant is what \<open>re.IGNORECASE\<close> accepts
  for the letter: besides its two ASCII forms, U+017F for \<open>S\<close> and U+0130 or U+0131
  for \<open>I\<close>.
\<close>

theorem deal_value_shape:
  "(extract_deal_value_from_text U c = NA \<or>
    marked_amount (extract_deal_value_from_text U c) \<or>
    (case search_deal U (collapse c) of None \<Rightarrow> False | Some (mk, amt) \<Rightarrow> slip_marker mk)) \<and>
   (c = [] \<or> search_deal U (collapse c) = None \<longrightarrow> extract_deal_value_from_text U c = NA) \<and>
   (c \<noteq> [] \<and> search_deal U (collapse c) = Some (mk, amt) \<longrightarrow>
      (\<exists>pre post. collapse c = pre @ mk @ amt @ post \<and>
         (\<forall>i<length pre. deal_at U currency_markers (drop i (collapse c)) = None)) \<and>
      list_ex (\<lambda>m. ci_prefix m mk = Some []) currency_markers \<and>
      (plain_marker mk \<or> mk = [36] \<or> mk = asc ''US$'' \<or> slip_marker mk) \<and>
      (case amount_text amt of [] \<Rightarrow> False | d # _ \<Rightarrow> is_09 d) \<and>
      (plain_marker mk \<longrightarrow>
         extract_deal_value_from_text U c = mk @ gap amt @ amount_text amt) \<and>
      (mk = [36] \<or> mk = asc ''US$'' \<longrightarrow>
         extract_deal_value_from_text U c = asc ''USD '' @ amount_text amt))"
proof -
  have none: "extract_deal_value_from_text U c = NA"
    if "c = [] \<or> search_deal U (collapse c) = None"
    using that by (auto simp: extract_deal_value_from_text_def)
  have some: "(\<exists>pre post. collapse c = pre @ mk @ amt @ post \<and>
         (\<forall>i<length pre. deal_at U currency_markers (drop i (collapse c)) = None)) \<and>
      list_ex (\<lambda>m. ci_prefix m mk = Some []) currency_markers \<and>
      (plain_marker mk \<or> mk = [36] \<or> mk = asc ''US$'' \<or> slip_marker mk) \<and>
      (case amount_text amt of [] \<Rightarrow> False | d # _ \<Rightarrow> is_09 d) \<and>
      (plain_marker mk \<longrightarrow>
         extract_deal_value_from_text U c = mk @ gap amt @ amount_text amt) \<and>
      (mk = [36] \<or> mk = asc ''US$'' \<longrightarrow>
         extract_deal_value_from_text U c = asc ''USD '' @ amount_text amt)"
    if found: "c \<noteq> [] \<and> search_deal U (collapse c) = Some (mk, amt)"
  proof -
    from found have res: "extract_deal_value_from_text U c = normalize_value (mk @ amt)"
      by (simp add: extract_deal_value_from_text_def)
    from found match_located [of U "collapse c" mk amt]
    have loc: "\<exists>pre post. collapse c = pre @ mk @ amt @ post \<and>
         (\<forall>i<length pre. deal_at U currency_markers (drop i (collapse c)) = None)"
      and mark: "list_ex (\<lambda>m. ci_prefix m mk = Some []) currency_markers"
      and shape: "\<exists>ws d tail. amt = ws @ d # tail \<and> list_all isspace ws \<and> is_09 d \<and> 36 \<notin> set tail"
      by blast+
    from shape obtain ws d tail where
      amt: "amt = ws @ d # tail" "list_all isspace ws" "is_09 d" "36 \<notin> set tail"
      by blast
    have d: "\<not> isspace d" using is_09_plain [OF amt(3)] by simp
    have digit: "case amount_text amt of [] \<Rightarrow> False | d # _ \<Rightarrow> is_09 d"
      using amt(3) by (simp add: amt(1) amount_text_eq [OF amt(2) d])
    have plain: "extract_deal_value_from_text U c = mk @ gap amt @ amount_text amt"
      if "plain_marker mk"
    proof -
      from plain_marker_clean [OF that] have "mk \<noteq> []" "\<forall>t\<in>set mk. \<not> isspace t \<and> t \<noteq> 36"
        by blast+
      from normalize_plain_eq [OF this amt(2,3,4)] res amt(1) show ?thesis
        by simp
    qed
    have dollar: "extract_deal_value_from_text U c = asc ''USD '' @ amount_text amt"
      if "mk = [36] \<or> mk = asc ''US$''"
      using normalize_dollar_eq [OF that amt(2,3,4)] res amt(1) by simp
    from loc mark marker_kinds [OF mark] digit plain dollar show ?thesis
      by blast
  qed
  from deal_value_marked [of U c] none some show ?thesis
    by blast
qed

theorem deal_value_shape_witness:
  "search_deal plain_db (collapse (asc ''valued at usd  5 million in cash'')) =
     Some (asc ''usd'', asc '' 5 million'') \<and>
   plain_marker (asc ''usd'') \<and>
   extract_deal_value_from_text plain_db (asc ''valued at usd  5 million in cash'') =
     asc ''usd'' @ asc '' '' @ asc ''5 million'' \<and>
   search_deal plain_db (collapse (asc ''paid $5 bn.'')) = Some (asc ''$'', asc ''5 bn'') \<and>
   extract_deal_value_from_text plain_db (asc ''paid $5 bn.'') = asc ''USD '' @ asc ''5 bn'' \<and>
   search_deal plain_db (collapse (asc ''no amount'')) = None \<and>
   extract_deal_value_from_text plain_db (asc ''no amount'') = NA"
proof -
  have 1: "asc ''valued at usd  5 million in cash'' \<noteq> [] \<and>
      search_deal plain_db (collapse (asc ''valued at usd  5 million in cash'')) =
      Some (asc ''usd'', asc '' 5 million'')"
    by (simp add: deal_eval)
  have 2: "asc ''paid $5 bn.'' \<noteq> [] \<and>
      search_deal plain_db (collapse (asc ''paid $5 bn.'')) = Some ([36], asc ''5 bn'')"
    by (simp add: deal_eval)
  have 3: "search_deal plain_db (collapse (asc ''no amount'')) = None"
    by (simp add: deal_eval)
  have p: "plain_marker (asc ''usd'')"
    by (simp add: plain_marker_def ascii_markers_def ci_match_def is_AZ_def is_az_def
        ascii_lower_def asc_def)
  have t: "gap (asc '' 5 million'') = asc '' ''" "amount_text (asc '' 5 million'') = asc ''5 million''"
      "amount_text (asc ''5 bn'') = asc ''5 bn''" "asc ''$'' = [36]"
    by (simp_all add: gap_def amount_text_def py_strip_def re_sub_ws_def isspace_def asc_def)
  from deal_value_shape [of plain_db "asc ''valued at usd  5 million in cash''" "asc ''usd''"
         "asc '' 5 million''"]
       deal_value_shape [of plain_db "asc ''paid $5 bn.''" "[36]" "asc ''5 bn''"]
       deal_value_shape [of plain_db "asc ''no amount''"]
       1 2 3 p t
  show ?thesis
    by simp
qed


text \<open>
  C4. The pattern of the source file does not contain the euro sign or the pound sign:
  where they should be, it has the code points U+201A U+00C7 U+00A8 and U+00AC U+00A3
  (the UTF-8 bytes of the two signs read in another encoding). A content with the euro
  sign or the pound sign before an amount therefore gives \<open>"NA"\<close>, while the garbled
  sequences are matched and returned.
\<close>

theorem euro_and_pound_not_matched:
  "extract_deal_value_from_text plain_db (asc ''Acme paid '' @ [8364] @ asc ''2.5 billion'') = NA \<and>
   extract_deal_value_from_text plain_db ([8364] @ asc ''2.5 billion'') = NA \<and>
   extract_deal_value_from_text plain_db ([163] @ asc ''3 million'') = NA \<and>
   extract_deal_value_from_text plain_db ([8218, 199, 168] @ asc ''2.5 billion'') =
     [8218, 199, 168] @ asc ''2.5 billion'' \<and>
   extract_deal_value_from_text plain_db (asc ''C$3.4 billion'') = asc ''CUSD 3.4 billion''"
  by (simp add: deal_eval plain_db_def)

end
